theory Spec2Isabelle
  imports Complex_Main "HOL-Library.AList" "HOL-Library.Sublist"
begin

section \<open>JavaScript numbers\<close>

text \<open>
  A JavaScript number is modelled as a real number or one of the three special values
  \<open>NaN\<close>, \<open>Infinity\<close> and \<open>-Infinity\<close>. The arithmetic below follows IEEE 754 on
  the special values and is exact on the real numbers: rounding, overflow, underflow
  and the sign of zero are not modelled. A double can differ from the exact value where
  a result is rounded (a similarity of \<open>1\<close> may be computed as \<open>0.9999999999999999\<close>)
  and where a square underflows to \<open>0\<close> or overflows to \<open>Infinity\<close>. The statements
  below that compare two computed similarities by size, or that test a computed sum for
  \<open>0\<close>, are statements about the exact values; they are marked where they occur.
\<close>

datatype jsnum = Num real | NaN | PosInf | NegInf

fun jneg :: "jsnum \<Rightarrow> jsnum" where
  "jneg (Num a) = Num (- a)"
| "jneg NaN = NaN"
| "jneg PosInf = NegInf"
| "jneg NegInf = PosInf"

fun jadd :: "jsnum \<Rightarrow> jsnum \<Rightarrow> jsnum" where
  "jadd (Num a) (Num b) = Num (a + b)"
| "jadd NaN y = NaN"
| "jadd x NaN = NaN"
| "jadd PosInf NegInf = NaN"
| "jadd NegInf PosInf = NaN"
| "jadd (Num a) y = y"
| "jadd x y = x"

definition jsub :: "jsnum \<Rightarrow> jsnum \<Rightarrow> jsnum" where
  "jsub x y = jadd x (jneg y)"

fun jmul :: "jsnum \<Rightarrow> jsnum \<Rightarrow> jsnum" where
  "jmul (Num a) (Num b) = Num (a * b)"
| "jmul NaN y = NaN"
| "jmul x NaN = NaN"
| "jmul (Num a) y = (if a = 0 then NaN else if 0 < a then y else jneg y)"
| "jmul x (Num b) = (if b = 0 then NaN else if 0 < b then x else jneg x)"
| "jmul PosInf y = y"
| "jmul NegInf y = jneg y"

fun jdiv :: "jsnum \<Rightarrow> jsnum \<Rightarrow> jsnum" where
  "jdiv (Num a) (Num b) =
     (if b \<noteq> 0 then Num (a / b)
      else if a = 0 then NaN
      else if 0 < a then PosInf else NegInf)"
| "jdiv NaN y = NaN"
| "jdiv x NaN = NaN"
| "jdiv (Num a) y = Num 0"
| "jdiv PosInf (Num b) = (if 0 \<le> b then PosInf else NegInf)"
| "jdiv NegInf (Num b) = (if 0 \<le> b then NegInf else PosInf)"
| "jdiv x y = NaN"

fun jsqrt :: "jsnum \<Rightarrow> jsnum" where
  "jsqrt (Num a) = (if a < 0 then NaN else Num (sqrt a))"
| "jsqrt PosInf = PosInf"
| "jsqrt x = NaN"

text \<open>\<open>x > y\<close> on numbers: false as soon as one side is \<open>NaN\<close>.\<close>

fun jgt :: "jsnum \<Rightarrow> jsnum \<Rightarrow> bool" where
  "jgt (Num a) (Num b) = (b < a)"
| "jgt NaN y = False"
| "jgt x NaN = False"
| "jgt PosInf y = (y \<noteq> PosInf)"
| "jgt x NegInf = (x \<noteq> NegInf)"
| "jgt x y = False"

text \<open>Truthiness of a number, as \<open>||\<close> tests it: \<open>0\<close> and \<open>NaN\<close> are falsy.\<close>

definition truthy :: "jsnum \<Rightarrow> bool" where
  "truthy x = (x \<noteq> Num 0 \<and> x \<noteq> NaN)"

fun is_finite_num :: "jsnum \<Rightarrow> bool" where
  "is_finite_num (Num a) = True"
| "is_finite_num x = False"

fun num_val :: "jsnum \<Rightarrow> real" where
  "num_val (Num a) = a"
| "num_val x = 0"

section \<open>Array.prototype.sort with the comparator of both search functions\<close>

text \<open>
  Both stores sort their scored documents with
  \<^verbatim>\<open>.sort((a, b) => b.similarity - a.similarity)\<close>.
  \<open>comparator\<close> is that arrow function; \<open>sorts_after\<close> is the test "the comparator's value
  is positive", where ECMAScript reads a \<open>NaN\<close> value as \<open>+0\<close>.

  \<open>Array.prototype.sort\<close> is stable (ECMAScript 2019). \<open>js_sort\<close> is the stable
  insertion sort: an element moves behind exactly those elements the comparator places
  before it. When every similarity is a number the comparator is consistent, and every
  conforming engine returns the list that \<open>js_sort\<close> returns (\<open>js_sort_sort_key\<close>).

  With a \<open>NaN\<close> among the similarities the comparator is not consistent and ECMAScript
  leaves the order to the implementation. \<open>js_sort\<close> then gives one admissible order,
  and Node's sort can give another one: on such an array \<open>js_sort\<close> is not a model of
  Node. The two agree on the arrays in which the comparator places no element before
  its predecessor (for this comparator: no element after its successor): Node's sort
  finds such an array to be one ascending run and returns it as it is, and so does
  \<open>js_sort\<close> (\<open>js_sort_run\<close>). The general
  statements about the order of the results are therefore stated for similarities that
  are all numbers, and the only arrays with a \<open>NaN\<close> that are evaluated below are of
  that kind.
\<close>

definition comparator :: "('a \<Rightarrow> jsnum) \<Rightarrow> 'a \<Rightarrow> 'a \<Rightarrow> jsnum" where
  "comparator sim a b = jsub (sim b) (sim a)"

definition sorts_after :: "('a \<Rightarrow> jsnum) \<Rightarrow> 'a \<Rightarrow> 'a \<Rightarrow> bool" where
  "sorts_after sim a b = jgt (comparator sim a b) (Num 0)"

fun js_insert :: "('a \<Rightarrow> jsnum) \<Rightarrow> 'a \<Rightarrow> 'a list \<Rightarrow> 'a list" where
  "js_insert sim x [] = [x]"
| "js_insert sim x (y # ys) =
     (if sorts_after sim x y then y # js_insert sim x ys else x # y # ys)"

definition js_sort :: "('a \<Rightarrow> jsnum) \<Rightarrow> 'a list \<Rightarrow> 'a list" where
  "js_sort sim xs = foldr (js_insert sim) xs []"

text \<open>
  \<open>slice(0, k)\<close> for a result count \<open>k\<close> (a natural number, as \<open>topK\<close> and \<open>limit\<close> are
  at every call site) is \<open>take k\<close>.
\<close>

definition slice0 :: "nat \<Rightarrow> 'a list \<Rightarrow> 'a list" where
  "slice0 k xs = take k xs"

text \<open>Reading \<open>xs[i]\<close>: \<open>None\<close> is \<open>undefined\<close>, the value of a read out of range.\<close>

definition js_at :: "'a list \<Rightarrow> int \<Rightarrow> 'a option" where
  "js_at xs i = (if 0 \<le> i \<and> i < int (length xs) then Some (xs ! nat i) else None)"

text \<open>An \<open>undefined\<close> operand of \<open>*\<close> is converted to \<open>NaN\<close>.\<close>

fun to_number :: "real option \<Rightarrow> jsnum" where
  "to_number (Some a) = Num a"
| "to_number None = NaN"

section \<open>The remote strategy: VectorStore (vector\_embeddings.js)\<close>

text \<open>
  Strings are lists of code units below 256 (\<open>char\<close>), and \<open>length\<close> is the \<open>.length\<close>
  of such a string. A metadata object is the list of its properties in creation order.
\<close>

datatype mval = MNum int | MStr string | MArr "mval list"

type_synonym metadata = "(string \<times> mval) list"

record vector_store =
  vectors :: "real list list"
  texts :: "string list"
  metadata :: "metadata list"

definition new_VectorStore :: vector_store where
  "new_VectorStore = \<lparr>vectors = [], texts = [], metadata = []\<rparr>"

subsection \<open>calculateSimilarity\<close>

text \<open>
  The loop \<^verbatim>\<open>for (let i = 0; i < vector1.length; i++)\<close> with its three accumulators.
  \<open>vector1[i]\<close> is always in range; \<open>vector2[i]\<close> is \<open>undefined\<close> once \<open>i\<close> reaches the
  length of \<open>vector2\<close>.
\<close>

function similarity_loop ::
  "real list \<Rightarrow> real list \<Rightarrow> nat \<Rightarrow> jsnum \<times> jsnum \<times> jsnum \<Rightarrow> jsnum \<times> jsnum \<times> jsnum" where
  "similarity_loop vector1 vector2 i (dotProduct, norm1, norm2) =
     (if i < length vector1 then
        (let x = to_number (js_at vector1 (int i));
             y = to_number (js_at vector2 (int i))
         in similarity_loop vector1 vector2 (Suc i)
              (jadd dotProduct (jmul x y), jadd norm1 (jmul x x), jadd norm2 (jmul y y)))
      else (dotProduct, norm1, norm2))"
  by pat_completeness auto
termination
  by (relation "measure (\<lambda>(vector1, vector2, i, acc). length vector1 - i)") auto

declare similarity_loop.simps [simp del]

definition calculateSimilarity :: "real list \<Rightarrow> real list \<Rightarrow> jsnum" where
  "calculateSimilarity vector1 vector2 =
     (case similarity_loop vector1 vector2 0 (Num 0, Num 0, Num 0) of
        (dotProduct, n1, n2) \<Rightarrow>
          (let norm1 = jsqrt n1; norm2 = jsqrt n2
           in if norm1 = Num 0 \<or> norm2 = Num 0 then Num 0
              else jdiv dotProduct (jmul norm1 norm2)))"

subsection \<open>search\<close>

text \<open>
  A search result of the remote store. \<open>text\<close> and \<open>metadata\<close> are read at the vector's
  position from arrays that a loaded file may have left shorter, so they can be
  \<open>undefined\<close>.
\<close>

record remote_hit =
  hit_text :: "string option"
  hit_metadata :: "metadata option"
  hit_similarity :: jsnum
  hit_index :: nat

datatype error = EmbeddingError | SyntaxError | TypeError

text \<open>
  The embedding service is a parameter: \<open>generateEmbedding text\<close> is the vector, or the
  error the call throws.
\<close>

type_synonym embedder = "string \<Rightarrow> error + real list"

definition remote_scores :: "vector_store \<Rightarrow> real list \<Rightarrow> remote_hit list" where
  "remote_scores s queryEmbedding =
     map (\<lambda>i. \<lparr>hit_text = js_at (texts s) (int i),
               hit_metadata = js_at (metadata s) (int i),
               hit_similarity = calculateSimilarity queryEmbedding (vectors s ! i),
               hit_index = i\<rparr>)
         [0..<length (vectors s)]"

definition VectorStore_search ::
  "embedder \<Rightarrow> vector_store \<Rightarrow> string \<Rightarrow> nat \<Rightarrow> error + remote_hit list" where
  "VectorStore_search generateEmbedding s query topK =
     (case generateEmbedding query of
        Inl e \<Rightarrow> Inl e
      | Inr queryEmbedding \<Rightarrow>
          Inr (slice0 topK (js_sort hit_similarity (remote_scores s queryEmbedding))))"

subsection \<open>getStats\<close>

record stats =
  totalVectors :: nat
  totalTexts :: nat
  averageTextLength :: jsnum
  vectorDimension :: nat

definition getStats :: "vector_store \<Rightarrow> stats" where
  "getStats s =
     \<lparr>totalVectors = length (vectors s),
      totalTexts = length (texts s),
      averageTextLength =
        jdiv (Num (real (fold (\<lambda>text sum. sum + length text) (texts s) 0)))
             (Num (real (length (texts s)))),
      vectorDimension = (if length (vectors s) > 0 then length (vectors s ! 0) else 0)\<rparr>"

subsection \<open>loadFromFile\<close>

text \<open>
  A file is represented by what \<^verbatim>\<open>JSON.parse(fs.readFileSync(filename, 'utf8'))\<close> makes of
  its text: \<open>Malformed\<close> when \<open>JSON.parse\<close> throws a SyntaxError, \<open>JsonNull\<close> for the
  value \<open>null\<close> (reading a property of it throws a TypeError), and otherwise the three
  properties the loader reads, \<open>None\<close> for a property that is absent or falsy, which
  \<^verbatim>\<open>|| []\<close> replaces by the empty array (a JSON value that is no object has none of
  the three). A property that is present is taken to be an array of the kind
  \<open>saveToFile\<close> writes. The file system maps the names of the files that exist to their
  contents.
\<close>

record saved_data =
  data_vectors :: "real list list option"
  data_texts :: "string list option"
  data_metadata :: "metadata list option"

datatype file_contents = Malformed | JsonNull | JsonData saved_data

type_synonym filesystem = "string \<rightharpoonup> file_contents"

definition or_empty :: "'a list option \<Rightarrow> 'a list" where
  "or_empty v = (case v of None \<Rightarrow> [] | Some xs \<Rightarrow> xs)"

text \<open>
  The result is the value returned (\<open>Inr\<close>) or the exception thrown (\<open>Inl\<close>), with the
  store as the call leaves it.
\<close>

definition loadFromFile ::
  "filesystem \<Rightarrow> string \<Rightarrow> vector_store \<Rightarrow> (error + bool) \<times> vector_store" where
  "loadFromFile fs filename s =
     (case fs filename of
        None \<Rightarrow> (Inr False, s)
      | Some Malformed \<Rightarrow> (Inl SyntaxError, s)
      | Some JsonNull \<Rightarrow> (Inl TypeError, s)
      | Some (JsonData data) \<Rightarrow>
          (Inr True,
           s\<lparr>vectors := or_empty (data_vectors data),
             texts := or_empty (data_texts data),
             metadata := or_empty (data_metadata data)\<rparr>))"

subsection \<open>splitTextIntoChunks\<close>

text \<open>
  \<open>is_space\<close> is the white space that \<open>String.prototype.trim\<close> removes among the code
  units below 256: tab, line feed, vertical tab, form feed, carriage return, space and
  the no-break space.
\<close>

definition is_space :: "char \<Rightarrow> bool" where
  "is_space c = ((of_char c :: nat) \<in> {9, 10, 11, 12, 13, 32, 160})"

definition trim :: "string \<Rightarrow> string" where
  "trim s = rev (dropWhile is_space (rev (dropWhile is_space s)))"

definition is_terminator :: "char \<Rightarrow> bool" where
  "is_terminator c = (c = CHR ''.'' \<or> c = CHR ''!'' \<or> c = CHR ''?'')"

text \<open>\<^verbatim>\<open>text.split(/[.!?]+/)\<close>: the pieces between maximal runs of terminators.\<close>

function split_terminators :: "string \<Rightarrow> string list" where
  "split_terminators s =
     (case dropWhile (\<lambda>c. \<not> is_terminator c) s of
        [] \<Rightarrow> [s]
      | r # rs \<Rightarrow>
          takeWhile (\<lambda>c. \<not> is_terminator c) s
            # split_terminators (dropWhile is_terminator rs))"
  by pat_completeness auto
termination
proof (relation "measure length")
  show "wf (measure length)" by simp
next
  fix s :: string and r rs
  assume a: "dropWhile (\<lambda>c. \<not> is_terminator c) s = r # rs"
  have "length (dropWhile is_terminator rs) \<le> length rs"
    by (rule length_dropWhile_le)
  moreover have "length (r # rs) \<le> length s"
    using length_dropWhile_le [of "\<lambda>c. \<not> is_terminator c" s] a by simp
  ultimately show "(dropWhile is_terminator rs, s) \<in> measure length"
    by simp
qed

declare split_terminators.simps [simp del]

text \<open>The \<^verbatim>\<open>for (const sentence of sentences)\<close> loop over \<open>(chunks, currentChunk)\<close>.\<close>

fun chunk_loop :: "int \<Rightarrow> string list \<Rightarrow> string list \<times> string \<Rightarrow> string list \<times> string" where
  "chunk_loop maxChunkSize [] (chunks, currentChunk) = (chunks, currentChunk)"
| "chunk_loop maxChunkSize (sentence # rest) (chunks, currentChunk) =
     (if int (length currentChunk) + int (length sentence) > maxChunkSize
         \<and> length currentChunk > 0
      then chunk_loop maxChunkSize rest (chunks @ [trim currentChunk], trim sentence)
      else chunk_loop maxChunkSize rest
             (chunks,
              currentChunk @ (if currentChunk \<noteq> [] then ''. '' else []) @ trim sentence))"

definition sentences_of :: "string \<Rightarrow> string list" where
  "sentences_of text = filter (\<lambda>s. length (trim s) > 0) (split_terminators text)"

definition splitTextIntoChunks :: "string \<Rightarrow> int \<Rightarrow> string list" where
  "splitTextIntoChunks text maxChunkSize =
     (case chunk_loop maxChunkSize (sentences_of text) ([], []) of
        (chunks, currentChunk) \<Rightarrow>
          if trim currentChunk \<noteq> [] then chunks @ [trim currentChunk] else chunks)"

subsubsection \<open>Greedy accumulation, as the specification words it\<close>

text \<open>
  The three definitions below are not taken from the code. They say what "greedily
  accumulate sentences into a chunk" means, and \<open>splitTextIntoChunks\<close> is compared
  with them in the section on chunk sizes. A group is the list of the sentences of one
  chunk. \<open>join_sentences\<close> is the chunk of a group: its sentences, trimmed, with
  \<open>". "\<close> between them. \<open>admitted\<close> says that every sentence of the group but the first
  passed the size test when it was added: the length of the chunk of the sentences
  before it plus the length of the sentence (not trimmed, and without the separator)
  did not exceed the maximum. \<open>closed_by\<close> says that a group was closed because the
  first sentence of the next group failed that test.
\<close>

fun join_sentences :: "string list \<Rightarrow> string" where
  "join_sentences [] = []"
| "join_sentences [s] = trim s"
| "join_sentences (s # t # rest) = trim s @ ''. '' @ join_sentences (t # rest)"

definition admitted :: "int \<Rightarrow> string list \<Rightarrow> bool" where
  "admitted maxChunkSize g =
     list_all (\<lambda>n. int (length (join_sentences (take n g))) + int (length (g ! n))
                      \<le> maxChunkSize) [1..<length g]"

definition closed_by :: "int \<Rightarrow> string list \<Rightarrow> string list \<Rightarrow> bool" where
  "closed_by maxChunkSize g g' =
     (maxChunkSize < int (length (join_sentences g)) + int (length (hd g')))"

subsection \<open>addText\<close>

text \<open>
  The loop over the chunks. The store is mutated in place, so an embedding call that
  throws leaves the chunks added before it in the store.
\<close>

function addText_loop ::
  "embedder \<Rightarrow> string list \<Rightarrow> metadata \<Rightarrow> nat \<Rightarrow> nat \<Rightarrow> vector_store
     \<Rightarrow> error option \<times> vector_store" where
  "addText_loop generateEmbedding chunks md originalLength i s =
     (if i < length chunks then
        (case generateEmbedding (chunks ! i) of
           Inl e \<Rightarrow> (Some e, s)
         | Inr embedding \<Rightarrow>
             addText_loop generateEmbedding chunks md originalLength (Suc i)
               (s\<lparr>vectors := vectors s @ [embedding],
                  texts := texts s @ [chunks ! i],
                  metadata := metadata s @
                    [AList.update ''originalLength'' (MNum (int originalLength))
                      (AList.update ''totalChunks'' (MNum (int (length chunks)))
                        (AList.update ''chunkIndex'' (MNum (int i)) md))]\<rparr>))
      else (None, s))"
  by pat_completeness auto
termination
  by (relation "measure (\<lambda>(g, chunks, md, n, i, s). length chunks - i)") auto

declare addText_loop.simps [simp del]

definition addText ::
  "embedder \<Rightarrow> string \<Rightarrow> metadata \<Rightarrow> vector_store \<Rightarrow> error option \<times> vector_store" where
  "addText generateEmbedding text md s =
     addText_loop generateEmbedding (splitTextIntoChunks text 1000) md (length text) 0 s"

section \<open>The local strategy: SimpleVectorStore (scraper.js)\<close>

subsection \<open>createEmbedding\<close>

text \<open>
  \<^verbatim>\<open>text.toLowerCase().match(/\b\w+\b/g) || []\<close>: the maximal runs of word characters
  \<open>[A-Za-z0-9_]\<close> of the lower-cased text. \<open>to_lower\<close> changes the letters A to Z; the
  other code units that \<open>toLowerCase\<close> changes are not word characters before or
  after, so the runs are the same.
\<close>

definition is_word_char :: "char \<Rightarrow> bool" where
  "is_word_char c =
     (let n = (of_char c :: nat)
      in (48 \<le> n \<and> n \<le> 57) \<or> (65 \<le> n \<and> n \<le> 90) \<or> n = 95 \<or> (97 \<le> n \<and> n \<le> 122))"

definition to_lower :: "char \<Rightarrow> char" where
  "to_lower c =
     (let n = (of_char c :: nat) in if 65 \<le> n \<and> n \<le> 90 then char_of (n + 32) else c)"

function match_words :: "string \<Rightarrow> string list" where
  "match_words s =
     (case dropWhile (\<lambda>c. \<not> is_word_char c) s of
        [] \<Rightarrow> []
      | r # rs \<Rightarrow> (r # takeWhile is_word_char rs) # match_words (dropWhile is_word_char rs))"
  by pat_completeness auto
termination
proof (relation "measure length")
  show "wf (measure length)" by simp
next
  fix s :: string and r rs
  assume a: "dropWhile (\<lambda>c. \<not> is_word_char c) s = r # rs"
  have "length (dropWhile is_word_char rs) \<le> length rs"
    by (rule length_dropWhile_le)
  moreover have "length (r # rs) \<le> length s"
    using length_dropWhile_le [of "\<lambda>c. \<not> is_word_char c" s] a by simp
  ultimately show "(dropWhile is_word_char rs, s) \<in> measure length"
    by simp
qed

declare match_words.simps [simp del]

text \<open>
  \<open>wordCount\<close> is a plain object \<^verbatim>\<open>{}\<close>: its own properties, in creation order, are an
  association list, and a read of a name that is not an own property goes to
  \<open>Object.prototype\<close>. Of the names \<open>Object.prototype\<close> defines, two are lower-case word
  tokens: \<open>constructor\<close> (the function \<open>Object\<close>) and \<open>__proto__\<close> (an accessor).
  A property holds a count, or the string that \<open>+ 1\<close> makes of a value that is not a
  number.
\<close>

datatype cell = CNum nat | CStr string

type_synonym word_count = "(string \<times> cell) list"

definition Object_source :: string where
  "Object_source = ''function Object() { [native code] }''"

text \<open>
  \<^verbatim>\<open>wordCount[word] = (wordCount[word] || 0) + 1\<close>.
  An own count is incremented; an own string is extended by \<open>1\<close>. Otherwise the read is
  inherited: for \<open>__proto__\<close> it yields an object and the assignment, whose value is a
  string, goes to the accessor, which ignores it; for \<open>constructor\<close> it yields the
  function \<open>Object\<close>, and \<open>Object + 1\<close> is the function's source text followed by \<open>1\<close>;
  for every other name it yields \<open>undefined\<close> and the count starts at \<open>0 + 1\<close>.
\<close>

definition count_word :: "string \<Rightarrow> word_count \<Rightarrow> word_count" where
  "count_word word wordCount =
     (case map_of wordCount word of
        Some (CNum n) \<Rightarrow> AList.update word (CNum (n + 1)) wordCount
      | Some (CStr t) \<Rightarrow> AList.update word (CStr (t @ ''1'')) wordCount
      | None \<Rightarrow>
          if word = ''__proto__'' then wordCount
          else if word = ''constructor'' then wordCount @ [(word, CStr (Object_source @ ''1''))]
          else wordCount @ [(word, CNum 1)])"

text \<open>
  \<open>Object.keys\<close>: the own property names that are array indices (canonical decimal
  numerals below \<open>2^32 - 1\<close>) in ascending numeric order, then the other names in
  creation order.
\<close>

definition is_digit :: "char \<Rightarrow> bool" where
  "is_digit c = (let n = (of_char c :: nat) in 48 \<le> n \<and> n \<le> 57)"

definition decimal_value :: "string \<Rightarrow> nat" where
  "decimal_value k = fold (\<lambda>c v. 10 * v + ((of_char c :: nat) - 48)) k 0"

definition is_array_index :: "string \<Rightarrow> bool" where
  "is_array_index k =
     (k \<noteq> [] \<and> list_all is_digit k \<and> (if hd k = CHR ''0'' then k = ''0'' else True)
      \<and> decimal_value k < 4294967295)"

definition Object_keys :: "word_count \<Rightarrow> string list" where
  "Object_keys wordCount =
     sort_key decimal_value (filter is_array_index (map fst wordCount))
       @ filter (\<lambda>k. \<not> is_array_index k) (map fst wordCount)"

text \<open>
  \<open>wordCount[word] / words.length\<close>: a count divides as a number; a string that is not a
  numeral converts to \<open>NaN\<close>, and so does \<open>undefined\<close>.
\<close>

fun cell_number :: "cell option \<Rightarrow> jsnum" where
  "cell_number (Some (CNum n)) = Num (real n)"
| "cell_number (Some (CStr t)) = NaN"
| "cell_number None = NaN"

record embedding =
  vector :: "jsnum list"
  vocabulary :: "string list"
  emb_text :: string

definition createEmbedding :: "string \<Rightarrow> embedding" where
  "createEmbedding text =
     (let words = match_words (map to_lower text);
          wordCount = fold count_word words [];
          vocabulary = Object_keys wordCount;
          vector = map (\<lambda>word. jdiv (cell_number (map_of wordCount word))
                                     (Num (real (length words)))) vocabulary
      in \<lparr>vector = vector, vocabulary = vocabulary, emb_text = text\<rparr>)"

subsection \<open>addDocument\<close>

record document =
  doc_text :: string
  doc_metadata :: metadata
  doc_embedding :: embedding

record simple_store =
  documents :: "document list"
  embeddings :: "embedding list"

definition new_SimpleVectorStore :: simple_store where
  "new_SimpleVectorStore = \<lparr>documents = [], embeddings = []\<rparr>"

definition addDocument :: "string \<Rightarrow> metadata \<Rightarrow> simple_store \<Rightarrow> simple_store" where
  "addDocument text md s =
     (let embedding = createEmbedding text
      in s\<lparr>documents := documents s @
             [\<lparr>doc_text = text, doc_metadata = md, doc_embedding = embedding\<rparr>],
           embeddings := embeddings s @ [embedding]\<rparr>)"

subsection \<open>cosineSimilarity\<close>

text \<open>\<open>indexOf\<close>: the first position of the element, or \<open>-1\<close>.\<close>

fun indexOf :: "'a list \<Rightarrow> 'a \<Rightarrow> int" where
  "indexOf [] x = - 1"
| "indexOf (y # ys) x =
     (if y = x then 0 else (let r = indexOf ys x in if r < 0 then - 1 else r + 1))"

text \<open>\<^verbatim>\<open>vec[idx] || 0\<close>: \<open>undefined\<close>, \<open>0\<close> and \<open>NaN\<close> become \<open>0\<close>.\<close>

definition or_zero :: "jsnum option \<Rightarrow> jsnum" where
  "or_zero v = (case v of None \<Rightarrow> Num 0 | Some x \<Rightarrow> if truthy x then x else Num 0)"

definition cosine_step ::
  "jsnum list \<Rightarrow> jsnum list \<Rightarrow> string list \<Rightarrow> string list \<Rightarrow> string
     \<Rightarrow> jsnum \<times> jsnum \<times> jsnum \<Rightarrow> jsnum \<times> jsnum \<times> jsnum" where
  "cosine_step vec1 vec2 vocab1 vocab2 word acc =
     (case acc of (dotProduct, norm1, norm2) \<Rightarrow>
        (let idx1 = indexOf vocab1 word;
             idx2 = indexOf vocab2 word;
             val1 = or_zero (js_at vec1 idx1);
             val2 = or_zero (js_at vec2 idx2)
         in (jadd dotProduct (jmul val1 val2),
             jadd norm1 (jmul val1 val1),
             jadd norm2 (jmul val2 val2))))"

definition cosineSimilarity ::
  "jsnum list \<Rightarrow> jsnum list \<Rightarrow> string list \<Rightarrow> string list \<Rightarrow> jsnum" where
  "cosineSimilarity vec1 vec2 vocab1 vocab2 =
     (let commonWords = filter (\<lambda>word. word \<in> set vocab2) vocab1
      in if length commonWords = 0 then Num 0
         else (case fold (cosine_step vec1 vec2 vocab1 vocab2) commonWords
                      (Num 0, Num 0, Num 0) of
                 (dotProduct, norm1, norm2) \<Rightarrow>
                   jdiv dotProduct (jmul (jsqrt norm1) (jsqrt norm2))))"

text \<open>
  The value that \<open>cosineSimilarity\<close> reads for a word of an embedding's vocabulary: the
  word's frequency among the tokens, and \<open>0\<close> for \<open>constructor\<close>, whose vector entry
  is \<open>NaN\<close>.
\<close>

definition weight :: "string list \<Rightarrow> string \<Rightarrow> real" where
  "weight words w =
     (if w = ''constructor'' then 0 else real (count_list words w) / real (length words))"

subsection \<open>search\<close>

record local_hit =
  document :: document
  similarity :: jsnum

definition local_scores :: "simple_store \<Rightarrow> string \<Rightarrow> local_hit list" where
  "local_scores s query =
     (let queryEmbedding = createEmbedding query
      in map (\<lambda>doc. \<lparr>document = doc,
                     similarity = cosineSimilarity
                       (vector queryEmbedding) (vector (doc_embedding doc))
                       (vocabulary queryEmbedding) (vocabulary (doc_embedding doc))\<rparr>)
             (documents s))"

text \<open>The filter's callback \<^verbatim>\<open>item => item.similarity > 0.1\<close>.\<close>

definition above_threshold :: "local_hit \<Rightarrow> bool" where
  "above_threshold item = jgt (similarity item) (Num (1 / 10))"

definition SimpleVectorStore_search :: "simple_store \<Rightarrow> string \<Rightarrow> nat \<Rightarrow> local_hit list" where
  "SimpleVectorStore_search s query limit =
     filter above_threshold (slice0 limit (js_sort similarity (local_scores s query)))"

section \<open>The objects that the two search functions return\<close>

text \<open>
  The property lists of the object literals that the two searches build:
  \<^verbatim>\<open>{ text: ..., metadata: ..., similarity: ..., index: i }\<close> in vector\_embeddings.js and
  \<^verbatim>\<open>{ document: doc, similarity: ... }\<close> in scraper.js.
\<close>

datatype property =
  PText "string option" | PMetadata "metadata option" | PSimilarity jsnum
  | PIndex nat | PDocument document

definition remote_hit_properties :: "remote_hit \<Rightarrow> (string \<times> property) list" where
  "remote_hit_properties h =
     [(''text'', PText (hit_text h)), (''metadata'', PMetadata (hit_metadata h)),
      (''similarity'', PSimilarity (hit_similarity h)), (''index'', PIndex (hit_index h))]"

definition local_hit_properties :: "local_hit \<Rightarrow> (string \<times> property) list" where
  "local_hit_properties h =
     [(''document'', PDocument (document h)), (''similarity'', PSimilarity (similarity h))]"

section \<open>Example stores\<close>

text \<open>
  A local store with three documents, two of them with the same text, and a remote
  store with three vectors, two of them equal; the embedding service of the examples
  answers the query \<open>a\<close> with the vector \<open>[1, 0]\<close>.
\<close>

abbreviation (input) example_documents :: simple_store where
  "example_documents \<equiv>
     addDocument ''a'' [(''id'', MNum 3)]
       (addDocument ''b'' [(''id'', MNum 2)]
         (addDocument ''a'' [(''id'', MNum 1)] new_SimpleVectorStore))"

text \<open>
  Two local stores with a document \<open>constructor\<close>, whose similarity to a query with
  that word is \<open>NaN\<close>.
\<close>

abbreviation (input) example_fewer :: simple_store where
  "example_fewer \<equiv>
     addDocument ''a'' []
       (addDocument ''constructor'' [] (addDocument ''b'' [] new_SimpleVectorStore))"

abbreviation (input) example_misordered :: simple_store where
  "example_misordered \<equiv>
     addDocument ''a'' []
       (addDocument ''constructor'' []
         (addDocument ''a a a a b b b'' [] new_SimpleVectorStore))"

abbreviation (input) example_vectors :: vector_store where
  "example_vectors \<equiv>
     \<lparr>vectors = [[1, 0], [0, 1], [1, 0]], texts = [''x'', ''y'', ''z''],
      metadata = [[], [], []]\<rparr>"

abbreviation (input) example_embedder :: embedder where
  "example_embedder \<equiv> (\<lambda>text. if text = ''a'' then Inr [1, 0] else Inl EmbeddingError)"

abbreviation (input) example_document :: "int \<Rightarrow> string \<Rightarrow> document" where
  "example_document n t \<equiv>
     \<lparr>doc_text = t, doc_metadata = [(''id'', MNum n)],
      doc_embedding = \<lparr>vector = [Num 1], vocabulary = [t], emb_text = t\<rparr>\<rparr>"

abbreviation (input) example_hit :: "string \<Rightarrow> jsnum \<Rightarrow> nat \<Rightarrow> remote_hit" where
  "example_hit t v i \<equiv>
     \<lparr>hit_text = Some t, hit_metadata = Some [], hit_similarity = v, hit_index = i\<rparr>"

section \<open>Sorting by similarity\<close>

lemma set_js_insert: "set (js_insert sim x ys) = insert x (set ys)"
  by (induction ys) auto

lemma length_js_insert: "length (js_insert sim x ys) = Suc (length ys)"
  by (induction ys) auto

lemma set_js_sort: "set (js_sort sim xs) = set xs"
  by (induction xs) (auto simp: js_sort_def set_js_insert)

lemma length_js_sort: "length (js_sort sim xs) = length xs"
  by (induction xs) (auto simp: js_sort_def length_js_insert)

text \<open>
  An array in which the comparator places no element after its successor is left as
  it is.
\<close>

lemma js_sort_run:
  "successively (\<lambda>a b. \<not> sorts_after sim a b) xs \<Longrightarrow> js_sort sim xs = xs"
proof (induction xs)
  case Nil
  show ?case by (simp add: js_sort_def)
next
  case (Cons x xs)
  have tail: "js_sort sim xs = xs"
    using Cons by (cases xs) simp_all
  have "js_sort sim (x # xs) = js_insert sim x (js_sort sim xs)"
    by (simp add: js_sort_def)
  also have "\<dots> = js_insert sim x xs" by (simp only: tail)
  also have "\<dots> = x # xs"
    using Cons.prems by (cases xs) simp_all
  finally show ?case .
qed

lemma sorts_after_num:
  assumes "is_finite_num (sim x)" and "is_finite_num (sim y)"
  shows "sorts_after sim x y = (num_val (sim x) < num_val (sim y))"
proof -
  obtain a where a: "sim x = Num a" using assms(1) by (cases "sim x") auto
  obtain b where b: "sim y = Num b" using assms(2) by (cases "sim y") auto
  show ?thesis by (simp add: sorts_after_def comparator_def jsub_def a b)
qed

lemma js_insert_insort_key:
  assumes "is_finite_num (sim x)" and "\<forall>y\<in>set ys. is_finite_num (sim y)"
  shows "js_insert sim x ys = insort_key (\<lambda>h. - num_val (sim h)) x ys"
  using assms by (induction ys) (auto simp: sorts_after_num)

lemma js_sort_sort_key:
  assumes "\<forall>y\<in>set xs. is_finite_num (sim y)"
  shows "js_sort sim xs = sort_key (\<lambda>h. - num_val (sim h)) xs"
  using assms
proof (induction xs)
  case Nil
  show ?case by (simp add: js_sort_def)
next
  case (Cons x xs)
  have "js_sort sim (x # xs) = js_insert sim x (js_sort sim xs)"
    by (simp add: js_sort_def)
  also have "\<dots> = insort_key (\<lambda>h. - num_val (sim h)) x (js_sort sim xs)"
    using Cons.prems by (intro js_insert_insort_key) (simp_all add: set_js_sort)
  also have "\<dots> = sort_key (\<lambda>h. - num_val (sim h)) (x # xs)"
    using Cons by simp
  finally show ?case .
qed

lemma filter_take_sorted_wrt:
  assumes "sorted_wrt R xs"
    and "\<forall>a\<in>set xs. \<forall>b\<in>set xs. R a b \<longrightarrow> P b \<longrightarrow> P a"
  shows "filter P (take k xs) = take k (filter P xs)"
  using assms
proof (induction xs arbitrary: k)
  case Nil
  show ?case by simp
next
  case (Cons x xs)
  show ?case
  proof (cases k)
    case 0
    then show ?thesis by simp
  next
    case (Suc k')
    show ?thesis
    proof (cases "P x")
      case True
      then show ?thesis using Cons Suc by simp
    next
      case False
      have "\<forall>b\<in>set xs. \<not> P b" using Cons.prems False by auto
      then have "filter P xs = []" and "filter P (take k' xs) = []"
        by (auto simp: filter_empty_conv dest: in_set_takeD)
      then show ?thesis using False Suc by simp
    qed
  qed
qed

lemma sorted_wrt_filter_nth:
  assumes "sorted_wrt R (filter P xs)" and "i < j" and "j < length xs"
    and "P (xs ! i)" and "P (xs ! j)"
  shows "R (xs ! i) (xs ! j)"
  using assms
proof (induction xs arbitrary: i j)
  case Nil
  then show ?case by simp
next
  case (Cons x xs)
  obtain j' where j: "j = Suc j'" using Cons.prems(2) by (cases j) auto
  show ?case
  proof (cases i)
    case 0
    have "xs ! j' \<in> set (filter P xs)" using Cons.prems j by simp
    then show ?thesis using Cons.prems 0 j by auto
  next
    case (Suc i')
    have "sorted_wrt R (filter P xs)" using Cons.prems(1) by (cases "P x") auto
    then show ?thesis using Cons.IH [of i' j'] Cons.prems Suc j by simp
  qed
qed

lemma hit_index_remote_scores:
  "map hit_index (remote_scores s qv) = [0..<length (vectors s)]"
  by (simp add: remote_scores_def comp_def)


lemma search_local_alt:
  "SimpleVectorStore_search s query limit =
     filter above_threshold (take limit (js_sort similarity (local_scores s query)))"
  by (simp add: SimpleVectorStore_search_def slice0_def)

lemma local_filter_take_commute:
  assumes "\<forall>h\<in>set (local_scores s query). is_finite_num (similarity h)"
  shows "SimpleVectorStore_search s query limit =
     take limit (filter above_threshold
       (sort_key (\<lambda>h. - num_val (similarity h)) (local_scores s query)))"
proof -
  let ?f = "\<lambda>h. - num_val (similarity h)"
  let ?L = "sort_key ?f (local_scores s query)"
  have srt: "sorted_wrt (\<lambda>a b. ?f a \<le> ?f b) ?L"
    using sorted_sort_key [of ?f "local_scores s query"] by (simp add: sorted_map)
  have mono: "\<forall>a\<in>set ?L. \<forall>b\<in>set ?L. ?f a \<le> ?f b \<longrightarrow> above_threshold b \<longrightarrow> above_threshold a"
  proof (intro ballI impI)
    fix a b
    assume a: "a \<in> set ?L" and b: "b \<in> set ?L" and le: "?f a \<le> ?f b" and pb: "above_threshold b"
    obtain x where x: "similarity a = Num x" using assms a by (cases "similarity a") auto
    obtain y where y: "similarity b = Num y" using assms b by (cases "similarity b") auto
    show "above_threshold a" using le pb by (simp add: above_threshold_def x y)
  qed
  show ?thesis
    unfolding search_local_alt js_sort_sort_key [OF assms]
    by (rule filter_take_sorted_wrt [OF srt mono])
qed

lemma js_sort_descending:
  assumes "\<forall>h\<in>set xs. is_finite_num (sim h)"
  shows "sorted_wrt (\<lambda>a b. num_val (sim b) \<le> num_val (sim a)) (js_sort sim xs)"
proof -
  have "sorted (map (\<lambda>h. - num_val (sim h)) (sort_key (\<lambda>h. - num_val (sim h)) xs))"
    by (rule sorted_sort_key)
  then show ?thesis
    by (simp add: js_sort_sort_key [OF assms] sorted_map)
qed

lemma js_sort_stable:
  assumes "\<forall>h\<in>set xs. is_finite_num (sim h)"
  shows "filter (\<lambda>h. sim h = v) (js_sort sim xs) = filter (\<lambda>h. sim h = v) xs"
proof (cases "is_finite_num v")
  case True
  then obtain r where v: "v = Num r" by (cases v) auto
  let ?f = "\<lambda>h. - num_val (sim h)"
  have eq: "filter (\<lambda>h. sim h = v) ys = filter (\<lambda>h. ?f h = - r) ys"
    if "set ys \<subseteq> set xs" for ys
  proof (rule filter_cong [OF refl])
    fix h
    assume "h \<in> set ys"
    then have "is_finite_num (sim h)" using assms that by auto
    then show "(sim h = v) = (?f h = - r)" by (cases "sim h") (auto simp: v)
  qed
  have "filter (\<lambda>h. sim h = v) (sort_key ?f xs) = filter (\<lambda>h. ?f h = - r) (sort_key ?f xs)"
    by (rule eq) simp
  also have "\<dots> = filter (\<lambda>h. ?f h = - r) xs"
    by (rule sort_key_stable)
  also have "\<dots> = filter (\<lambda>h. sim h = v) xs"
    by (rule eq [symmetric]) simp
  finally show ?thesis by (simp add: js_sort_sort_key [OF assms])
next
  case False
  have "filter (\<lambda>h. sim h = v) ys = []" if "set ys \<subseteq> set xs" for ys
  proof -
    have "sim h \<noteq> v" if "h \<in> set ys" for h
      using assms False that \<open>set ys \<subseteq> set xs\<close> by auto
    then show ?thesis by (simp add: filter_empty_conv)
  qed
  then show ?thesis by (simp add: set_js_sort)
qed

lemma top_k_ties_prefix:
  assumes "\<forall>h\<in>set xs. is_finite_num (sim h)"
  shows "prefix (filter (\<lambda>h. sim h = v) (take k (js_sort sim xs))) (filter (\<lambda>h. sim h = v) xs)"
proof -
  have "prefix (filter (\<lambda>h. sim h = v) (take k (js_sort sim xs)))
          (filter (\<lambda>h. sim h = v) (js_sort sim xs))"
    by (intro filter_mono_prefix take_is_prefix)
  then show ?thesis by (simp add: js_sort_stable [OF assms])
qed

lemma prefix_sorted_wrt: "prefix xs ys \<Longrightarrow> sorted_wrt R ys \<Longrightarrow> sorted_wrt R xs"
  by (auto simp: prefix_def sorted_wrt_append)

section \<open>Cosine similarity of the remote store\<close>



lemma js_at_nat: "i < length xs \<Longrightarrow> js_at xs (int i) = Some (xs ! i)"
  by (simp add: js_at_def)


lemma sum_squares_nonneg: "0 \<le> sum_list (map (\<lambda>x. x * x) (xs :: real list))"
  by (induction xs) simp_all

lemma similarity_loop_step:
  "i < length vector1 \<Longrightarrow>
   similarity_loop vector1 vector2 i (d, n1, n2)
     = similarity_loop vector1 vector2 (Suc i)
         (jadd d (jmul (Num (vector1 ! i)) (to_number (js_at vector2 (int i)))),
          jadd n1 (Num (vector1 ! i * vector1 ! i)),
          jadd n2 (jmul (to_number (js_at vector2 (int i))) (to_number (js_at vector2 (int i)))))"
  by (subst similarity_loop.simps) (simp add: js_at_nat Let_def)

lemma similarity_loop_done:
  "length vector1 \<le> i \<Longrightarrow> similarity_loop vector1 vector2 i acc = acc"
  by (cases acc) (simp add: similarity_loop.simps)



lemma similarity_loop_closed:
  assumes "length vector1 \<le> length vector2" and "i \<le> length vector1"
  shows "similarity_loop vector1 vector2 i (Num d, Num a, Num b)
     = (Num (d + sum_list (map (\<lambda>(x, y). x * y) (zip (drop i vector1) (drop i vector2)))),
        Num (a + sum_list (map (\<lambda>x. x * x) (drop i vector1))),
        Num (b + sum_list (map (\<lambda>y. y * y) (take (length vector1 - i) (drop i vector2)))))"
  using assms(2)
proof (induction "length vector1 - i" arbitrary: i d a b)
  case 0
  then show ?case by (simp add: similarity_loop_done)
next
  case (Suc n)
  have i: "i < length vector1" using Suc.hyps(2) by simp
  have i2: "i < length vector2" using i assms(1) by simp
  have n: "n = length vector1 - Suc i" using Suc.hyps(2) by simp
  have d1: "drop i vector1 = vector1 ! i # drop (Suc i) vector1"
    using i by (simp add: Cons_nth_drop_Suc)
  have d2: "drop i vector2 = vector2 ! i # drop (Suc i) vector2"
    using i2 by (simp add: Cons_nth_drop_Suc)
  have t: "length vector1 - i = Suc (length vector1 - Suc i)" using i by simp
  have "Suc i \<le> length vector1" using i by simp
  note IH = Suc.hyps(1) [OF n this,
      of "d + vector1 ! i * vector2 ! i" "a + vector1 ! i * vector1 ! i"
         "b + vector2 ! i * vector2 ! i"]
  show ?case
    unfolding similarity_loop_step [OF i] js_at_nat [OF i2]
    by (simp add: IH d1 d2 t add.assoc)
qed

text \<open>
  For vectors of one dimension \<open>calculateSimilarity\<close> is the cosine, and \<open>0\<close> when a norm
  is \<open>0\<close>. This lemma and \<open>calculateSimilarity_number\<close> are about the exactly computed
  sums: with doubles a square can overflow to \<open>Infinity\<close>, and the quotient of two
  infinite values is \<open>NaN\<close>.
\<close>

lemma calculateSimilarity_cosine:
  assumes "length vector1 = length vector2"
  shows "calculateSimilarity vector1 vector2
     = (if sum_list (map (\<lambda>x. x * x) vector1) = 0 \<or> sum_list (map (\<lambda>y. y * y) vector2) = 0
        then Num 0
        else Num (sum_list (map (\<lambda>(x, y). x * y) (zip vector1 vector2))
                  / (sqrt (sum_list (map (\<lambda>x. x * x) vector1))
                     * sqrt (sum_list (map (\<lambda>y. y * y) vector2)))))"
proof -
  have le: "length vector1 \<le> length vector2" using assms by simp
  show ?thesis
    using similarity_loop_closed [OF le, of 0 0 0 0] assms
      sum_squares_nonneg [of vector1] sum_squares_nonneg [of vector2]
    by (simp add: calculateSimilarity_def Let_def)
qed

lemma calculateSimilarity_number:
  assumes "length vector1 \<le> length vector2"
  shows "is_finite_num (calculateSimilarity vector1 vector2)"
  using similarity_loop_closed [OF assms, of 0 0 0 0]
  using sum_squares_nonneg [of vector1] sum_squares_nonneg [of "take (length vector1) vector2"]
  by (simp add: calculateSimilarity_def Let_def)




lemma sum_squares_zero:
  "(sum_list (map (\<lambda>x. x * x) (xs :: real list)) = 0) = list_all (\<lambda>x. x = 0) xs"
proof (induction xs)
  case Nil
  show ?case by simp
next
  case (Cons x xs)
  have "0 \<le> x * x" by simp
  moreover have "0 \<le> sum_list (map (\<lambda>x. x * x) xs)" by (rule sum_squares_nonneg)
  ultimately have "(x * x + sum_list (map (\<lambda>x. x * x) xs) = 0)
      = (x * x = 0 \<and> sum_list (map (\<lambda>x. x * x) xs) = 0)"
    by (rule add_nonneg_eq_0_iff)
  then show ?case using Cons by simp
qed


text \<open>
  When no stored vector is shorter than the query vector, every similarity of the
  remote store is a number, in exact arithmetic: the hypothesis of the lemmas on the
  order of the results.
\<close>

lemma remote_scores_numbers:
  assumes "\<forall>v\<in>set (vectors vs). length queryEmbedding \<le> length v"
  shows "\<forall>h\<in>set (remote_scores vs queryEmbedding). is_finite_num (hit_similarity h)"
  using assms by (auto simp: remote_scores_def intro: calculateSimilarity_number)

section \<open>The embedder on every text\<close>

text \<open>
  What \<open>createEmbedding\<close> returns for an arbitrary text. The vocabulary holds the distinct
  tokens except \<open>__proto__\<close>, the vector is as long as the vocabulary, and the entry of
  every word other than \<open>constructor\<close> is its count divided by the number of tokens
  (\<open>createEmbedding_frequencies\<close>).
\<close>

lemma map_of_snoc_other: "k \<noteq> w \<Longrightarrow> map_of (wc @ [(w, v)]) k = map_of wc k"
  by (induction wc) auto

lemma map_of_snoc_new: "map_of wc w = None \<Longrightarrow> map_of (wc @ [(w, v)]) w = Some v"
  by (induction wc) (auto split: if_splits)

lemma map_of_count_word_other:
  assumes "k \<noteq> w"
  shows "map_of (count_word w wc) k = map_of wc k"
proof (cases "map_of wc w")
  case None
  then show ?thesis using assms by (simp add: count_word_def map_of_snoc_other del: map_of_append)
next
  case (Some v)
  then show ?thesis using assms by (cases v) (simp_all add: count_word_def update_conv')
qed

lemma map_of_count_word_num:
  "map_of wc w = Some (CNum n) \<Longrightarrow> map_of (count_word w wc) w = Some (CNum (n + 1))"
  by (simp add: count_word_def update_conv')

lemma map_of_count_word_str:
  "map_of wc w = Some (CStr t) \<Longrightarrow> map_of (count_word w wc) w = Some (CStr (t @ ''1''))"
  by (simp add: count_word_def update_conv')

lemma map_of_count_word_new:
  assumes "map_of wc w = None"
  shows "map_of (count_word w wc) w =
     (if w = ''__proto__'' then None
      else if w = ''constructor'' then Some (CStr (Object_source @ ''1''))
      else Some (CNum 1))"
proof -
  have new: "map_of (wc @ [(w, v)]) w = Some v" for v
    using assms by (rule map_of_snoc_new)
  consider "w = ''__proto__''" | "w = ''constructor''"
    | "w \<noteq> ''__proto__''" "w \<noteq> ''constructor''"
    by blast
  then show ?thesis
  proof cases
    case 1
    then have "count_word w wc = wc" using assms by (simp add: count_word_def)
    then show ?thesis using assms 1 by simp
  next
    case 2
    then have "count_word w wc = wc @ [(w, CStr (Object_source @ ''1''))]"
      using assms by (simp add: count_word_def)
    then have "map_of (count_word w wc) w = Some (CStr (Object_source @ ''1''))"
      by (simp only: new)
    then show ?thesis using 2 by simp
  next
    case 3
    then have "count_word w wc = wc @ [(w, CNum 1)]"
      using assms by (simp add: count_word_def)
    then have "map_of (count_word w wc) w = Some (CNum 1)"
      by (simp only: new)
    then show ?thesis using 3 by simp
  qed
qed

lemma distinct_count_word:
  assumes "distinct (map fst wc)"
  shows "distinct (map fst (count_word w wc))"
proof (cases "map_of wc w")
  case None
  then have "w \<notin> fst ` set wc" by (simp add: map_of_eq_None_iff)
  then show ?thesis using assms None by (auto simp: count_word_def)
next
  case (Some v)
  then show ?thesis using assms
    by (cases v) (simp_all add: count_word_def distinct_update)
qed

lemma fold_count_word_snoc:
  "fold count_word (ws @ [w]) wc = count_word w (fold count_word ws wc)"
  by simp

lemma distinct_fold_count_word: "distinct (map fst (fold count_word ws []))"
  by (induction ws rule: rev_induct) (simp_all add: distinct_count_word)

lemma count_of_word:
  assumes "k \<noteq> ''constructor''"
  shows "map_of (fold count_word ws []) k =
     (if k \<in> set ws \<and> k \<noteq> ''__proto__'' then Some (CNum (count_list ws k)) else None)"
proof (induction ws rule: rev_induct)
  case Nil
  show ?case by simp
next
  case (snoc w ws)
  let ?wc = "fold count_word ws []"
  show ?case
  proof (cases "k = w")
    case False
    then show ?thesis
      unfolding fold_count_word_snoc
      using snoc by (simp add: map_of_count_word_other)
  next
    case True
    show ?thesis
    proof (cases "k \<in> set ws \<and> k \<noteq> ''__proto__''")
      case present: True
      then have "map_of ?wc w = Some (CNum (count_list ws k))" using snoc True by simp
      then have "map_of (count_word w ?wc) w = Some (CNum (count_list ws k + 1))"
        by (rule map_of_count_word_num)
      then show ?thesis using present True by simp
    next
      case absent: False
      then have "map_of ?wc w = None" using snoc True by simp
      then have "map_of (count_word w ?wc) w =
          (if w = ''__proto__'' then None
           else if w = ''constructor'' then Some (CStr (Object_source @ ''1''))
           else Some (CNum 1))"
        by (rule map_of_count_word_new)
      then show ?thesis using absent True assms by auto
    qed
  qed
qed

lemma count_of_constructor:
  "map_of (fold count_word ws []) ''constructor'' =
     (if ''constructor'' \<in> set ws
      then Some (CStr (Object_source @ replicate (count_list ws ''constructor'') CHR ''1''))
      else None)"
proof (induction ws rule: rev_induct)
  case Nil
  show ?case by simp
next
  case (snoc w ws)
  let ?wc = "fold count_word ws []"
  show ?case
  proof (cases "w = ''constructor''")
    case False
    then have "map_of (count_word w ?wc) ''constructor'' = map_of ?wc ''constructor''"
      by (intro map_of_count_word_other) simp
    then show ?thesis using snoc False by simp
  next
    case True
    show ?thesis
    proof (cases "''constructor'' \<in> set ws")
      case present: True
      then have "map_of ?wc w
          = Some (CStr (Object_source @ replicate (count_list ws ''constructor'') CHR ''1''))"
        using snoc True by simp
      then have "map_of (count_word w ?wc) w
          = Some (CStr ((Object_source @ replicate (count_list ws ''constructor'') CHR ''1'')
              @ ''1''))"
        by (rule map_of_count_word_str)
      then show ?thesis using present True by (simp add: replicate_append_same)
    next
      case absent: False
      then have "map_of ?wc w = None" using snoc True by simp
      then have "map_of (count_word w ?wc) w =
          (if w = ''__proto__'' then None
           else if w = ''constructor'' then Some (CStr (Object_source @ ''1''))
           else Some (CNum 1))"
        by (rule map_of_count_word_new)
      then show ?thesis using absent True by simp
    qed
  qed
qed

lemma keys_fold_count_word:
  "set (map fst (fold count_word ws [])) = set ws - {''__proto__''}"
proof -
  have "k \<in> dom (map_of (fold count_word ws [])) \<longleftrightarrow> k \<in> set ws - {''__proto__''}" for k
  proof (cases "k = ''constructor''")
    case True
    then show ?thesis by (simp add: count_of_constructor dom_def)
  next
    case False
    then show ?thesis by (simp add: count_of_word dom_def)
  qed
  then have "dom (map_of (fold count_word ws [])) = set ws - {''__proto__''}" by blast
  then show ?thesis by (simp add: dom_map_of_conv_image_fst)
qed

lemma set_Object_keys: "set (Object_keys wc) = set (map fst wc)"
  by (auto simp: Object_keys_def)

lemma distinct_Object_keys:
  assumes "distinct (map fst wc)"
  shows "distinct (Object_keys wc)"
  using assms by (auto simp: Object_keys_def)

lemma length_match_words_pos: "w \<in> set words \<Longrightarrow> 0 < length words"
  by (cases words) auto

lemma createEmbedding_frequencies:
  fixes t :: string
  defines "words \<equiv> match_words (map to_lower t)"
  shows "length (vector (createEmbedding t)) = length (vocabulary (createEmbedding t))
     \<and> distinct (vocabulary (createEmbedding t))
     \<and> set (vocabulary (createEmbedding t)) = set words - {''__proto__''}
     \<and> vector (createEmbedding t)
         = map (\<lambda>word. if word = ''constructor'' then NaN
                        else Num (real (count_list words word) / real (length words)))
             (vocabulary (createEmbedding t))"
proof -
  let ?wc = "fold count_word words []"
  have voc: "vocabulary (createEmbedding t) = Object_keys ?wc"
    by (simp add: createEmbedding_def words_def Let_def)
  have vec: "vector (createEmbedding t)
      = map (\<lambda>word. jdiv (cell_number (map_of ?wc word)) (Num (real (length words))))
          (Object_keys ?wc)"
    by (simp add: createEmbedding_def words_def Let_def)
  have keys: "set (Object_keys ?wc) = set words - {''__proto__''}"
    by (simp only: set_Object_keys keys_fold_count_word)
  have entry: "jdiv (cell_number (map_of ?wc word)) (Num (real (length words)))
      = (if word = ''constructor'' then NaN
         else Num (real (count_list words word) / real (length words)))"
    if "word \<in> set (Object_keys ?wc)" for word
  proof -
    have w: "word \<in> set words" and p: "word \<noteq> ''__proto__''" using that keys by auto
    have n: "real (length words) \<noteq> 0" using length_match_words_pos [OF w] by simp
    show ?thesis
    proof (cases "word = ''constructor''")
      case True
      then show ?thesis using w by (simp add: count_of_constructor)
    next
      case False
      then show ?thesis using w p n by (simp add: count_of_word)
    qed
  qed
  have "vector (createEmbedding t)
      = map (\<lambda>word. if word = ''constructor'' then NaN
                     else Num (real (count_list words word) / real (length words)))
          (Object_keys ?wc)"
    unfolding vec by (rule map_cong [OF refl]) (rule entry)
  then show ?thesis
    using keys by (simp add: voc distinct_Object_keys distinct_fold_count_word)
qed

section \<open>The similarity of two embeddings\<close>

text \<open>
  The similarity of the embeddings of two texts is \<open>0\<close> when the vocabularies share no
  word, \<open>NaN\<close> when the only shared word is \<open>constructor\<close>, and otherwise the cosine
  over the shared words, a number (\<open>cosineSimilarity_embeddings\<close>). So every similarity
  of a local search is a number when the query does not contain the token
  \<open>constructor\<close> and the documents were added with \<open>addDocument\<close>
  (\<open>local_scores_numbers\<close>). The value of the cosine is the exact one; a double is
  that value up to rounding.
\<close>

lemma indexOf_nonneg_iff: "0 \<le> indexOf xs w \<longleftrightarrow> w \<in> set xs"
  by (induction xs) (auto simp: Let_def)

lemma indexOf_in:
  assumes "w \<in> set xs"
  shows "\<exists>i<length xs. indexOf xs w = int i \<and> xs ! i = w"
  using assms
proof (induction xs)
  case Nil
  then show ?case by simp
next
  case (Cons x xs)
  show ?case
  proof (cases "x = w")
    case True
    then show ?thesis by (intro exI [of _ 0]) simp
  next
    case False
    then have "w \<in> set xs" using Cons.prems by simp
    then obtain i where i: "i < length xs" "indexOf xs w = int i" "xs ! i = w"
      using Cons.IH by blast
    then show ?thesis using False by (intro exI [of _ "Suc i"]) (simp add: Let_def)
  qed
qed


lemma weight_nonneg: "0 \<le> weight words w"
  by (simp add: weight_def)

lemma weight_pos:
  assumes "w \<in> set words" and "w \<noteq> ''constructor''"
  shows "0 < weight words w"
proof -
  have "count_list words w \<noteq> 0" using assms(1) by (simp add: count_list_0_iff)
  then have "0 < count_list words w" by simp
  moreover have "0 < length words" using assms(1) by (rule length_match_words_pos)
  ultimately show ?thesis using assms(2) by (simp add: weight_def)
qed

lemma embedding_value:
  fixes t :: string
  defines "e \<equiv> createEmbedding t"
  assumes "w \<in> set (vocabulary e)"
  shows "or_zero (js_at (vector e) (indexOf (vocabulary e) w))
           = Num (weight (match_words (map to_lower t)) w)"
proof -
  let ?words = "match_words (map to_lower t)"
  note facts = createEmbedding_frequencies [of t, folded e_def]
  obtain i where i: "i < length (vocabulary e)" "indexOf (vocabulary e) w = int i"
      "vocabulary e ! i = w"
    using indexOf_in [OF assms(2)] by blast
  have len: "length (vector e) = length (vocabulary e)" using facts by simp
  have "vector e ! i = (if w = ''constructor'' then NaN
      else Num (real (count_list ?words w) / real (length ?words)))"
    using facts i by (simp del: count_list.simps)
  moreover have "js_at (vector e) (int i) = Some (vector e ! i)"
    using i len by (simp add: js_at_def)
  moreover have "w \<in> set ?words" using facts assms(2) by auto
  then have "w \<noteq> ''constructor'' \<Longrightarrow> 0 < real (count_list ?words w) / real (length ?words)"
    using weight_pos [of w ?words] by (simp add: weight_def)
  ultimately show ?thesis
    by (auto simp: i or_zero_def truthy_def weight_def)
qed

lemma cosine_fold:
  assumes "\<And>w. w \<in> set ws \<Longrightarrow> or_zero (js_at vec1 (indexOf vocab1 w)) = Num (f1 w)"
    and "\<And>w. w \<in> set ws \<Longrightarrow> or_zero (js_at vec2 (indexOf vocab2 w)) = Num (f2 w)"
  shows "fold (cosine_step vec1 vec2 vocab1 vocab2) ws (Num d, Num a, Num b)
     = (Num (d + sum_list (map (\<lambda>w. f1 w * f2 w) ws)),
        Num (a + sum_list (map (\<lambda>w. f1 w * f1 w) ws)),
        Num (b + sum_list (map (\<lambda>w. f2 w * f2 w) ws)))"
  using assms
proof (induction ws arbitrary: d a b)
  case Nil
  show ?case by simp
next
  case (Cons w ws)
  have "cosine_step vec1 vec2 vocab1 vocab2 w (Num d, Num a, Num b)
      = (Num (d + f1 w * f2 w), Num (a + f1 w * f1 w), Num (b + f2 w * f2 w))"
    using Cons.prems by (simp add: cosine_step_def Let_def)
  then show ?case
    using Cons.IH [of "d + f1 w * f2 w" "a + f1 w * f1 w" "b + f2 w * f2 w"] Cons.prems
    by (simp add: add.assoc)
qed

lemma sum_list_squares_pos:
  fixes f :: "'a \<Rightarrow> real"
  assumes "w \<in> set ws" and "0 < f w"
  shows "0 < sum_list (map (\<lambda>w. f w * f w) ws)" (is "0 < ?S ws")
  using assms(1)
proof (induction ws)
  case Nil
  then show ?case by simp
next
  case (Cons x xs)
  have nn: "0 \<le> ?S ys" for ys by (induction ys) simp_all
  show ?case
  proof (cases "x = w")
    case True
    then have "0 < f x * f x" using assms(2) by simp
    then have "0 < f x * f x + ?S xs" using nn [of xs] by (rule add_pos_nonneg)
    then show ?thesis by simp
  next
    case False
    then have "0 < ?S xs" using Cons by simp
    moreover have "0 \<le> f x * f x" by simp
    ultimately have "0 < f x * f x + ?S xs" by (rule add_nonneg_pos [rotated])
    then show ?thesis by simp
  qed
qed

lemma sum_list_all_zero:
  assumes "\<And>w. w \<in> set ws \<Longrightarrow> g w = (0 :: real)"
  shows "sum_list (map g ws) = 0"
  using assms by (induction ws) simp_all

lemma sum_list_squares_nonneg:
  fixes f :: "'a \<Rightarrow> real"
  shows "0 \<le> sum_list (map (\<lambda>w. f w * f w) ws)"
  by (induction ws) simp_all

lemma cosineSimilarity_embeddings:
  fixes q t :: string
  defines "e1 \<equiv> createEmbedding q" and "e2 \<equiv> createEmbedding t"
  defines "common \<equiv> filter (\<lambda>w. w \<in> set (vocabulary e2)) (vocabulary e1)"
  shows "cosineSimilarity (vector e1) (vector e2) (vocabulary e1) (vocabulary e2)
     = (if common = [] then Num 0
        else if common = [''constructor''] then NaN
        else Num (sum_list (map (\<lambda>w. weight (match_words (map to_lower q)) w
                                      * weight (match_words (map to_lower t)) w) common)
                  / (sqrt (sum_list (map (\<lambda>w. weight (match_words (map to_lower q)) w
                                      * weight (match_words (map to_lower q)) w) common))
                     * sqrt (sum_list (map (\<lambda>w. weight (match_words (map to_lower t)) w
                                      * weight (match_words (map to_lower t)) w) common)))))"
proof -
  let ?w1 = "match_words (map to_lower q)" and ?w2 = "match_words (map to_lower t)"
  let ?f1 = "weight ?w1" and ?f2 = "weight ?w2"
  let ?D = "sum_list (map (\<lambda>w. ?f1 w * ?f2 w) common)"
  let ?A = "sum_list (map (\<lambda>w. ?f1 w * ?f1 w) common)"
  let ?B = "sum_list (map (\<lambda>w. ?f2 w * ?f2 w) common)"
  have in1: "w \<in> set (vocabulary e1)" and in2: "w \<in> set (vocabulary e2)"
    if "w \<in> set common" for w
    using that by (simp_all add: common_def)
  have v1: "or_zero (js_at (vector e1) (indexOf (vocabulary e1) w)) = Num (?f1 w)"
    if "w \<in> set common" for w
    unfolding e1_def using in1 [OF that] by (intro embedding_value) (simp add: e1_def)
  have v2: "or_zero (js_at (vector e2) (indexOf (vocabulary e2) w)) = Num (?f2 w)"
    if "w \<in> set common" for w
    unfolding e2_def using in2 [OF that] by (intro embedding_value) (simp add: e2_def)
  have fold: "fold (cosine_step (vector e1) (vector e2) (vocabulary e1) (vocabulary e2)) common
      (Num 0, Num 0, Num 0) = (Num ?D, Num ?A, Num ?B)"
    using cosine_fold [of common "vector e1" "vocabulary e1" ?f1 "vector e2" "vocabulary e2" ?f2
        0 0 0] v1 v2
    by simp
  have A0: "0 \<le> ?A" and B0: "0 \<le> ?B" by (rule sum_list_squares_nonneg)+
  have cos: "cosineSimilarity (vector e1) (vector e2) (vocabulary e1) (vocabulary e2)
      = (if common = [] then Num 0 else jdiv (Num ?D) (Num (sqrt ?A * sqrt ?B)))"
    using A0 B0 by (simp add: cosineSimilarity_def Let_def fold flip: common_def)
  have dist: "distinct common"
    using createEmbedding_frequencies [of q] by (simp add: common_def e1_def)
  have words1: "w \<in> set ?w1" and words2: "w \<in> set ?w2" if "w \<in> set common" for w
    using in1 [OF that] in2 [OF that] createEmbedding_frequencies [of q]
      createEmbedding_frequencies [of t]
    by (auto simp: e1_def e2_def)
  show ?thesis
  proof (cases "common = []")
    case True
    then show ?thesis by (simp add: cos)
  next
    case nonempty: False
    show ?thesis
    proof (cases "\<exists>w\<in>set common. w \<noteq> ''constructor''")
      case True
      then obtain w where w: "w \<in> set common" "w \<noteq> ''constructor''" by blast
      have "0 < ?f1 w" and "0 < ?f2 w"
        using w words1 words2 by (simp_all add: weight_pos)
      then have "0 < ?A" and "0 < ?B"
        using w(1) by (simp_all add: sum_list_squares_pos)
      then have "sqrt ?A * sqrt ?B \<noteq> 0" by simp
      moreover have "common \<noteq> [''constructor'']" using w by auto
      ultimately show ?thesis using nonempty by (simp add: cos)
    next
      case False
      then have all: "\<And>w. w \<in> set common \<Longrightarrow> w = ''constructor''" by blast
      have "set common = {''constructor''}" using all nonempty by (cases common) auto
      then have c: "common = [''constructor'']"
      proof (cases common)
        case Nil
        then show ?thesis using nonempty by simp
      next
        case (Cons x xs)
        have x: "x = ''constructor''" using all Cons by simp
        have "xs = []"
        proof (cases xs)
          case Nil
          then show ?thesis .
        next
          case (Cons y ys)
          then have "y = ''constructor''" using all \<open>common = x # xs\<close> by simp
          then show ?thesis using dist x Cons \<open>common = x # xs\<close> by simp
        qed
        then show ?thesis using x Cons by simp
      qed
      have "?A = 0" and "?D = 0"
        by (simp_all add: c weight_def)
      then show ?thesis using nonempty c by (simp add: cos)
    qed
  qed
qed

lemma addDocument_embeddings:
  assumes "\<forall>d\<in>set (documents s). doc_embedding d = createEmbedding (doc_text d)"
  shows "\<forall>d\<in>set (documents (addDocument t md s)).
           doc_embedding d = createEmbedding (doc_text d)"
  using assms by (simp add: addDocument_def Let_def)

lemma local_scores_numbers:
  assumes "\<forall>d\<in>set (documents s). doc_embedding d = createEmbedding (doc_text d)"
    and "''constructor'' \<notin> set (match_words (map to_lower query))"
  shows "\<forall>h\<in>set (local_scores s query). is_finite_num (similarity h)"
proof
  fix h
  assume "h \<in> set (local_scores s query)"
  then obtain d where d: "d \<in> set (documents s)"
    and h: "similarity h = cosineSimilarity
          (vector (createEmbedding query)) (vector (doc_embedding d))
          (vocabulary (createEmbedding query)) (vocabulary (doc_embedding d))"
    by (auto simp: local_scores_def Let_def)
  have e: "doc_embedding d = createEmbedding (doc_text d)" using assms(1) d by simp
  let ?common = "filter (\<lambda>w. w \<in> set (vocabulary (createEmbedding (doc_text d))))
      (vocabulary (createEmbedding query))"
  have "''constructor'' \<notin> set (vocabulary (createEmbedding query))"
    using createEmbedding_frequencies [of query] assms(2) by simp
  then have "''constructor'' \<notin> set ?common" by simp
  then have "?common \<noteq> [''constructor'']" by (metis list.set_intros(1))
  then show "is_finite_num (similarity h)"
    unfolding h e by (simp add: cosineSimilarity_embeddings)
qed

section \<open>The example stores, evaluated\<close>

lemma char_eq_char_of: "(c = char_of (n :: nat)) = (take_bit 8 n = of_char c)"
  using char_of_eq_iff [of n c] by auto

lemmas embedding_eval =
  char_of_eq_iff char_eq_char_of createEmbedding_def match_words.simps to_lower_def is_word_char_def count_word_def
  Object_keys_def is_array_index_def is_digit_def decimal_value_def Object_source_def Let_def

lemmas cosine_eval =
  cosineSimilarity_def cosine_step_def or_zero_def js_at_def truthy_def Let_def

lemma example_local_scores:
  "local_scores
     (addDocument ''a'' [(''id'', MNum 3)]
       (addDocument ''b'' [(''id'', MNum 2)]
         (addDocument ''a'' [(''id'', MNum 1)] new_SimpleVectorStore))) ''a''
   = [\<lparr>document = \<lparr>doc_text = ''a'', doc_metadata = [(''id'', MNum 1)],
          doc_embedding = \<lparr>vector = [Num 1], vocabulary = [''a''], emb_text = ''a''\<rparr>\<rparr>,
        similarity = Num 1\<rparr>,
      \<lparr>document = \<lparr>doc_text = ''b'', doc_metadata = [(''id'', MNum 2)],
          doc_embedding = \<lparr>vector = [Num 1], vocabulary = [''b''], emb_text = ''b''\<rparr>\<rparr>,
        similarity = Num 0\<rparr>,
      \<lparr>document = \<lparr>doc_text = ''a'', doc_metadata = [(''id'', MNum 3)],
          doc_embedding = \<lparr>vector = [Num 1], vocabulary = [''a''], emb_text = ''a''\<rparr>\<rparr>,
        similarity = Num 1\<rparr>]"
  by (simp add: local_scores_def addDocument_def new_SimpleVectorStore_def
        embedding_eval cosine_eval)

lemma example_remote_scores:
  "remote_scores \<lparr>vectors = [[1, 0], [0, 1], [1, 0]], texts = [''x'', ''y'', ''z''],
       metadata = [[], [], []]\<rparr> [1, 0]
   = [\<lparr>hit_text = Some ''x'', hit_metadata = Some [], hit_similarity = Num 1, hit_index = 0\<rparr>,
      \<lparr>hit_text = Some ''y'', hit_metadata = Some [], hit_similarity = Num 0, hit_index = 1\<rparr>,
      \<lparr>hit_text = Some ''z'', hit_metadata = Some [], hit_similarity = Num 1, hit_index = 2\<rparr>]"
  by (simp add: remote_scores_def calculateSimilarity_def similarity_loop.simps js_at_def
        upt_rec Let_def)

lemma example_local_sorted:
  "js_sort similarity (local_scores example_documents ''a'')
    = [local_scores example_documents ''a'' ! 0, local_scores example_documents ''a'' ! 2,
       local_scores example_documents ''a'' ! 1]"
  unfolding example_local_scores
  by (simp add: js_sort_def sorts_after_def comparator_def jsub_def)

lemma example_remote_sorted:
  "js_sort hit_similarity (remote_scores example_vectors [1, 0])
    = [remote_scores example_vectors [1, 0] ! 0, remote_scores example_vectors [1, 0] ! 2,
       remote_scores example_vectors [1, 0] ! 1]"
  unfolding example_remote_scores
  by (simp add: js_sort_def sorts_after_def comparator_def jsub_def)

lemma example_local_search:
  "SimpleVectorStore_search example_documents ''a'' 2
     = [\<lparr>document = example_document 1 ''a'', similarity = Num 1\<rparr>,
        \<lparr>document = example_document 3 ''a'', similarity = Num 1\<rparr>]"
  unfolding SimpleVectorStore_search_def example_local_sorted
  unfolding example_local_scores
  by (simp add: slice0_def above_threshold_def)

lemma example_remote_search:
  "VectorStore_search example_embedder example_vectors ''a'' 2
     = Inr [example_hit ''x'' (Num 1) 0, example_hit ''z'' (Num 1) 2]"
  unfolding VectorStore_search_def
  by (simp add: example_remote_sorted) (simp add: example_remote_scores slice0_def)

lemma example_documents_eval:
  "documents example_documents
     = [example_document 1 ''a'', example_document 2 ''b'', example_document 3 ''a'']"
  by (simp add: addDocument_def new_SimpleVectorStore_def embedding_eval)

lemma sqrt_quarter: "sqrt (1 / 4) = 1 / 2"
  by (rule real_sqrt_unique) (simp_all add: power2_eq_square)

lemma sqrt_9_64: "sqrt (9 / 64) = 3 / 8"
  by (rule real_sqrt_unique) (simp_all add: power2_eq_square)

lemma sqrt_25_64: "sqrt (25 / 64) = 5 / 8"
  by (rule real_sqrt_unique) (simp_all add: power2_eq_square)

lemma sqrt_25_49: "sqrt (25 / 49) = 5 / 7"
  by (rule real_sqrt_unique) (simp_all add: power2_eq_square)

lemma example_fewer_scores:
  "map similarity (local_scores example_fewer ''a constructor'') = [Num 0, NaN, Num 1]"
  by (simp add: local_scores_def addDocument_def new_SimpleVectorStore_def
        embedding_eval cosine_eval sqrt_quarter)

lemma example_misordered_scores:
  "map similarity (local_scores example_misordered ''a a a b b b b constructor'')
     = [Num (24 / 25), NaN, Num 1]"
  by (simp add: local_scores_def addDocument_def new_SimpleVectorStore_def
        embedding_eval cosine_eval sqrt_9_64 sqrt_25_64 sqrt_25_49)

text \<open>
  In both arrays of similarities every comparison with the \<open>NaN\<close> is read as \<open>0\<close>
  and no other two elements are adjacent, so the sort leaves the array as it is.
\<close>

lemma example_fewer_sorted:
  "js_sort similarity (local_scores example_fewer ''a constructor'')
     = local_scores example_fewer ''a constructor''"
proof -
  obtain x y z where l: "local_scores example_fewer ''a constructor'' = [x, y, z]"
    and s: "similarity x = Num 0" "similarity y = NaN" "similarity z = Num 1"
    using example_fewer_scores by (auto simp: map_eq_Cons_conv)
  show ?thesis
    unfolding l
    by (rule js_sort_run) (simp add: sorts_after_def comparator_def jsub_def s)
qed

lemma example_misordered_sorted:
  "js_sort similarity (local_scores example_misordered ''a a a b b b b constructor'')
     = local_scores example_misordered ''a a a b b b b constructor''"
proof -
  obtain x y z where
    l: "local_scores example_misordered ''a a a b b b b constructor'' = [x, y, z]"
    and s: "similarity x = Num (24 / 25)" "similarity y = NaN" "similarity z = Num 1"
    using example_misordered_scores by (auto simp: map_eq_Cons_conv)
  show ?thesis
    unfolding l
    by (rule js_sort_run) (simp add: sorts_after_def comparator_def jsub_def s)
qed

lemma example_fewer_search:
  "SimpleVectorStore_search example_fewer ''a constructor'' 1 = []"
proof -
  obtain x y z where l: "local_scores example_fewer ''a constructor'' = [x, y, z]"
    and s: "similarity x = Num 0" "similarity y = NaN" "similarity z = Num 1"
    using example_fewer_scores by (auto simp: map_eq_Cons_conv)
  show ?thesis
    unfolding SimpleVectorStore_search_def example_fewer_sorted
    by (simp add: l s slice0_def above_threshold_def)
qed

lemma example_misordered_search:
  "map similarity (SimpleVectorStore_search example_misordered ''a a a b b b b constructor'' 3)
     = [Num (24 / 25), Num 1]"
proof -
  obtain x y z where
    l: "local_scores example_misordered ''a a a b b b b constructor'' = [x, y, z]"
    and s: "similarity x = Num (24 / 25)" "similarity y = NaN" "similarity z = Num 1"
    using example_misordered_scores by (auto simp: map_eq_Cons_conv)
  show ?thesis
    unfolding SimpleVectorStore_search_def example_misordered_sorted
    by (simp add: l s slice0_def above_threshold_def)
qed

section \<open>Top-K bound (C1)\<close>

text \<open>
  The parts of the top-K bound that hold. The local search returns at most \<open>k\<close>
  results, each with similarity above \<open>0.1\<close>, for every store and query; the remote
  search applies no threshold and returns \<open>min k n\<close> results for a store of \<open>n\<close>
  vectors. The local search returns exactly \<open>k\<close> results when at least \<open>k\<close> stored
  documents have similarity above \<open>0.1\<close>, provided that the similarities are all
  numbers: there the comparator is consistent, and the filter and the truncation
  commute (\<open>local_filter_take_commute\<close>). The similarities are all numbers whenever
  the query does not contain the token \<open>constructor\<close> and the documents were added with
  \<open>addDocument\<close> (\<open>local_scores_numbers\<close>).
\<close>

lemma top_k_of_numbers:
  fixes s :: simple_store and vs :: vector_store
  shows "length (SimpleVectorStore_search s query k) \<le> k
     \<and> (\<forall>h\<in>set (SimpleVectorStore_search s query k). jgt (similarity h) (Num (1 / 10)))
     \<and> ((\<forall>h\<in>set (local_scores s query). is_finite_num (similarity h))
          \<longrightarrow> k \<le> length (filter (\<lambda>h. jgt (similarity h) (Num (1 / 10))) (local_scores s query))
          \<longrightarrow> length (SimpleVectorStore_search s query k) = k)
     \<and> (generateEmbedding query = Inr queryEmbedding
          \<longrightarrow> (\<exists>results. VectorStore_search generateEmbedding vs query k = Inr results
                \<and> length results = min k (length (vectors vs))))"
proof (intro conjI impI)
  have "length (SimpleVectorStore_search s query k)
          \<le> length (take k (js_sort similarity (local_scores s query)))"
    unfolding search_local_alt by (rule length_filter_le)
  then show "length (SimpleVectorStore_search s query k) \<le> k" by simp
next
  show "\<forall>h\<in>set (SimpleVectorStore_search s query k). jgt (similarity h) (Num (1 / 10))"
    by (simp add: SimpleVectorStore_search_def above_threshold_def)
next
  assume num: "\<forall>h\<in>set (local_scores s query). is_finite_num (similarity h)"
    and k: "k \<le> length (filter (\<lambda>h. jgt (similarity h) (Num (1 / 10))) (local_scores s query))"
  have "length (filter above_threshold
           (sort_key (\<lambda>h. - num_val (similarity h)) (local_scores s query)))
        = length (filter above_threshold (local_scores s query))"
    by (simp add: filter_sort)
  then show "length (SimpleVectorStore_search s query k) = k"
    using k unfolding local_filter_take_commute [OF num]
    by (simp add: above_threshold_def [abs_def])
next
  assume "generateEmbedding query = Inr queryEmbedding"
  then show "\<exists>results. VectorStore_search generateEmbedding vs query k = Inr results
      \<and> length results = min k (length (vectors vs))"
    by (simp add: VectorStore_search_def slice0_def length_js_sort remote_scores_def)
qed

lemma top_k_of_numbers_example:
  "map similarity (local_scores example_documents ''a'') = [Num 1, Num 0, Num 1]
   \<and> list_all (\<lambda>h. is_finite_num (similarity h)) (local_scores example_documents ''a'')
   \<and> 2 \<le> length (filter (\<lambda>h. jgt (similarity h) (Num (1 / 10)))
                   (local_scores example_documents ''a''))
   \<and> length (SimpleVectorStore_search example_documents ''a'' 2) = 2
   \<and> list_all (\<lambda>h. jgt (similarity h) (Num (1 / 10)))
        (SimpleVectorStore_search example_documents ''a'' 2)
   \<and> example_embedder ''a'' = Inr [1, 0]
   \<and> (\<exists>results. VectorStore_search example_embedder example_vectors ''a'' 2 = Inr results
         \<and> length results = min 2 (length (vectors example_vectors)))"
proof -
  have v: "map similarity (local_scores example_documents ''a'') = [Num 1, Num 0, Num 1]"
    by (simp add: example_local_scores)
  have a: "\<forall>h\<in>set (local_scores example_documents ''a''). is_finite_num (similarity h)"
    by (simp add: example_local_scores)
  have b: "2 \<le> length (filter (\<lambda>h. jgt (similarity h) (Num (1 / 10)))
                   (local_scores example_documents ''a''))"
    by (simp add: example_local_scores)
  have c: "example_embedder ''a'' = Inr [1, 0]" by simp
  show ?thesis
    unfolding list_all_iff
    using top_k_of_numbers [where s = example_documents and query = "''a''" and k = 2
      and generateEmbedding = example_embedder and queryEmbedding = "[1, 0]"
      and vs = example_vectors] v a b c
    by blast
qed

text \<open>
  C1. The claim: the local search returns exactly \<open>k\<close> results whenever at least \<open>k\<close>
  stored documents have similarity greater than \<open>0.1\<close>. The code, on the store of the
  documents \<open>b\<close>, \<open>constructor\<close> and \<open>a\<close> (added in this order), the query
  \<open>a constructor\<close> and \<open>k = 1\<close>: the similarities are \<open>0\<close>, \<open>NaN\<close> and \<open>1\<close>, so one
  document has similarity greater than \<open>0.1\<close>; the sort leaves the three in place, the
  truncation keeps the first, whose similarity is \<open>0\<close>, and the filter removes it. The
  search returns no result. The \<open>NaN\<close> is the similarity of the document
  \<open>constructor\<close>, whose embedding the word count corrupts.
\<close>

theorem search_fewer_than_k:
  "map similarity (local_scores example_fewer ''a constructor'') = [Num 0, NaN, Num 1]
   \<and> length (filter (\<lambda>h. jgt (similarity h) (Num (1 / 10)))
               (local_scores example_fewer ''a constructor'')) = 1
   \<and> SimpleVectorStore_search example_fewer ''a constructor'' 1 = []"
proof -
  obtain x y z where l: "local_scores example_fewer ''a constructor'' = [x, y, z]"
    and s: "similarity x = Num 0" "similarity y = NaN" "similarity z = Num 1"
    using example_fewer_scores by (auto simp: map_eq_Cons_conv)
  have "length (filter (\<lambda>h. jgt (similarity h) (Num (1 / 10)))
               (local_scores example_fewer ''a constructor'')) = 1"
    by (simp add: l s)
  then show ?thesis
    using example_fewer_scores example_fewer_search by simp
qed

section \<open>Loading a saved store (C2)\<close>

text \<open>
  C2, as stated: \<open>load\<close> returns false when the file's contents fail to parse. The
  counterexample is a file that exists and whose text is not JSON: \<open>JSON.parse\<close> throws
  and \<open>loadFromFile\<close>, which has no handler, propagates the SyntaxError.
\<close>

theorem loadFromFile_parse_failure_counterexample:
  "loadFromFile [''website_vectors.json'' \<mapsto> Malformed] ''website_vectors.json''
     example_vectors = (Inl SyntaxError, example_vectors)"
  by (simp add: loadFromFile_def)

text \<open>
  C2, amended. For every file system, every path and every store state: if the file is
  missing, \<open>loadFromFile\<close> returns false and leaves the store unchanged; if the file's
  contents fail to parse, it throws the parse error and leaves the store unchanged; if
  the file parses to a saved store, it returns true, and the store's vectors, texts and
  metadata are those of the file (the empty array for a property the file lacks),
  whatever the store held before. The three cases are three statements about one
  arbitrary path each.
\<close>

theorem loadFromFile_outcomes:
  "(fs path = None \<longrightarrow> loadFromFile fs path s = (Inr False, s))
   \<and> (fs path = Some Malformed \<longrightarrow> loadFromFile fs path s = (Inl SyntaxError, s))
   \<and> (fs path = Some (JsonData data) \<longrightarrow>
        loadFromFile fs path s
          = (Inr True, \<lparr>vectors = or_empty (data_vectors data),
                        texts = or_empty (data_texts data),
                        metadata = or_empty (data_metadata data)\<rparr>))"
  by (simp add: loadFromFile_def)

theorem loadFromFile_outcomes_witness:
  "loadFromFile
      [''broken.json'' \<mapsto> Malformed,
       ''website_vectors.json'' \<mapsto>
          JsonData \<lparr>data_vectors = Some [[0, 1]], data_texts = Some [''w''],
                    data_metadata = None\<rparr>]
      ''missing.json'' example_vectors = (Inr False, example_vectors)
   \<and> loadFromFile
      [''broken.json'' \<mapsto> Malformed,
       ''website_vectors.json'' \<mapsto>
          JsonData \<lparr>data_vectors = Some [[0, 1]], data_texts = Some [''w''],
                    data_metadata = None\<rparr>]
      ''broken.json'' example_vectors = (Inl SyntaxError, example_vectors)
   \<and> loadFromFile
      [''broken.json'' \<mapsto> Malformed,
       ''website_vectors.json'' \<mapsto>
          JsonData \<lparr>data_vectors = Some [[0, 1]], data_texts = Some [''w''],
                    data_metadata = None\<rparr>]
      ''website_vectors.json'' example_vectors
       = (Inr True, \<lparr>vectors = [[0, 1]], texts = [''w''], metadata = []\<rparr>)"
  using
    loadFromFile_outcomes
      [where fs = "[''broken.json'' \<mapsto> Malformed,
         ''website_vectors.json'' \<mapsto>
            JsonData \<lparr>data_vectors = Some [[0, 1]], data_texts = Some [''w''],
                      data_metadata = None\<rparr>]"
        and path = "''missing.json''" and s = example_vectors]
    loadFromFile_outcomes
      [where fs = "[''broken.json'' \<mapsto> Malformed,
         ''website_vectors.json'' \<mapsto>
            JsonData \<lparr>data_vectors = Some [[0, 1]], data_texts = Some [''w''],
                      data_metadata = None\<rparr>]"
        and path = "''broken.json''" and s = example_vectors]
    loadFromFile_outcomes
      [where fs = "[''broken.json'' \<mapsto> Malformed,
         ''website_vectors.json'' \<mapsto>
            JsonData \<lparr>data_vectors = Some [[0, 1]], data_texts = Some [''w''],
                      data_metadata = None\<rparr>]"
        and path = "''website_vectors.json''" and s = example_vectors
        and data = "\<lparr>data_vectors = Some [[0, 1]], data_texts = Some [''w''],
                      data_metadata = None\<rparr>"]
  by (simp add: or_empty_def)

section \<open>Result records (C3)\<close>

text \<open>
  C3, as stated: every result of either search has an \<open>index\<close> property, the position of
  its document in the store. The counterexample is a result of the local search: its
  object has the properties \<open>document\<close> and \<open>similarity\<close> and no property \<open>index\<close>.
\<close>

theorem local_result_index_counterexample:
  "SimpleVectorStore_search example_documents ''a'' 2
     = [\<lparr>document = example_document 1 ''a'', similarity = Num 1\<rparr>,
        \<lparr>document = example_document 3 ''a'', similarity = Num 1\<rparr>]
   \<and> map_of (local_hit_properties (SimpleVectorStore_search example_documents ''a'' 2 ! 1))
        ''index'' = None"
  by (simp add: example_local_search local_hit_properties_def)

lemma set_remote_search:
  assumes "VectorStore_search g vs q k = Inr results"
  shows "\<exists>qv. g q = Inr qv \<and> set results \<subseteq> set (remote_scores vs qv)"
proof (cases "g q")
  case (Inl e)
  then show ?thesis using assms by (simp add: VectorStore_search_def)
next
  case (Inr qv)
  then have "results = take k (js_sort hit_similarity (remote_scores vs qv))"
    using assms by (simp add: VectorStore_search_def slice0_def)
  then have "set results \<subseteq> set (remote_scores vs qv)"
    using set_take_subset [of k "js_sort hit_similarity (remote_scores vs qv)"]
    by (simp add: set_js_sort)
  then show ?thesis using Inr by blast
qed

lemma set_local_search:
  "set (SimpleVectorStore_search s q k) \<subseteq> set (local_scores s q)"
  using set_take_subset [of k "js_sort similarity (local_scores s q)"]
  by (auto simp: SimpleVectorStore_search_def slice0_def set_js_sort)

text \<open>
  C3, amended. Every result of the remote search has an \<open>index\<close> property that is a
  position in the store's full list of vectors, and its \<open>text\<close>, \<open>metadata\<close> and
  \<open>similarity\<close> are those of that position. Every result of the local search has no
  \<open>index\<close> property; it holds a stored document (with its text and metadata) under
  \<open>document\<close>, and that document's similarity to the query.
\<close>

theorem search_result_fields:
  assumes "VectorStore_search generateEmbedding vs query k = Inr results"
    and "h \<in> set results"
    and "item \<in> set (SimpleVectorStore_search s query' limit)"
  shows "(\<exists>queryEmbedding. generateEmbedding query = Inr queryEmbedding
        \<and> hit_index h < length (vectors vs)
        \<and> map_of (remote_hit_properties h) ''index'' = Some (PIndex (hit_index h))
        \<and> map_of (remote_hit_properties h) ''text''
            = Some (PText (js_at (texts vs) (int (hit_index h))))
        \<and> map_of (remote_hit_properties h) ''metadata''
            = Some (PMetadata (js_at (metadata vs) (int (hit_index h))))
        \<and> map_of (remote_hit_properties h) ''similarity''
            = Some (PSimilarity (calculateSimilarity queryEmbedding (vectors vs ! hit_index h))))
     \<and> map_of (local_hit_properties item) ''index'' = None
     \<and> document item \<in> set (documents s)
     \<and> map_of (local_hit_properties item) ''document'' = Some (PDocument (document item))
     \<and> map_of (local_hit_properties item) ''similarity''
         = Some (PSimilarity (cosineSimilarity
              (vector (createEmbedding query')) (vector (doc_embedding (document item)))
              (vocabulary (createEmbedding query'))
              (vocabulary (doc_embedding (document item)))))"
proof -
  obtain qv where qv: "generateEmbedding query = Inr qv"
    and sub: "set results \<subseteq> set (remote_scores vs qv)"
    using set_remote_search [OF assms(1)] by blast
  have "h \<in> set (remote_scores vs qv)" using sub assms(2) by blast
  then obtain i where i: "i < length (vectors vs)"
    and h: "h = \<lparr>hit_text = js_at (texts vs) (int i), hit_metadata = js_at (metadata vs) (int i),
               hit_similarity = calculateSimilarity qv (vectors vs ! i), hit_index = i\<rparr>"
    by (auto simp: remote_scores_def)
  have remote: "\<exists>queryEmbedding. generateEmbedding query = Inr queryEmbedding
        \<and> hit_index h < length (vectors vs)
        \<and> map_of (remote_hit_properties h) ''index'' = Some (PIndex (hit_index h))
        \<and> map_of (remote_hit_properties h) ''text''
            = Some (PText (js_at (texts vs) (int (hit_index h))))
        \<and> map_of (remote_hit_properties h) ''metadata''
            = Some (PMetadata (js_at (metadata vs) (int (hit_index h))))
        \<and> map_of (remote_hit_properties h) ''similarity''
            = Some (PSimilarity (calculateSimilarity queryEmbedding (vectors vs ! hit_index h)))"
    using qv i by (intro exI [of _ qv]) (simp add: h remote_hit_properties_def)
  have "item \<in> set (local_scores s query')"
    using set_local_search assms(3) by blast
  then obtain doc where doc: "doc \<in> set (documents s)"
    and item: "item = \<lparr>document = doc,
        similarity = cosineSimilarity
          (vector (createEmbedding query')) (vector (doc_embedding doc))
          (vocabulary (createEmbedding query')) (vocabulary (doc_embedding doc))\<rparr>"
    by (auto simp: local_scores_def Let_def)
  have local: "map_of (local_hit_properties item) ''index'' = None
     \<and> document item \<in> set (documents s)
     \<and> map_of (local_hit_properties item) ''document'' = Some (PDocument (document item))
     \<and> map_of (local_hit_properties item) ''similarity''
         = Some (PSimilarity (cosineSimilarity
              (vector (createEmbedding query')) (vector (doc_embedding (document item)))
              (vocabulary (createEmbedding query'))
              (vocabulary (doc_embedding (document item)))))"
    using doc by (simp add: item local_hit_properties_def)
  show ?thesis using remote local by blast
qed

theorem search_result_fields_witness:
  "VectorStore_search example_embedder example_vectors ''a'' 2
     = Inr [example_hit ''x'' (Num 1) 0, example_hit ''z'' (Num 1) 2]
   \<and> SimpleVectorStore_search example_documents ''a'' 2
     = [\<lparr>document = example_document 1 ''a'', similarity = Num 1\<rparr>,
        \<lparr>document = example_document 3 ''a'', similarity = Num 1\<rparr>]
   \<and> example_embedder ''a'' = Inr [1, 0]
   \<and> map_of (remote_hit_properties (example_hit ''z'' (Num 1) 2)) ''index'' = Some (PIndex 2)
   \<and> map_of (remote_hit_properties (example_hit ''z'' (Num 1) 2)) ''text''
       = Some (PText (js_at (texts example_vectors) 2))
   \<and> map_of (remote_hit_properties (example_hit ''z'' (Num 1) 2)) ''metadata''
       = Some (PMetadata (js_at (metadata example_vectors) 2))
   \<and> map_of (remote_hit_properties (example_hit ''z'' (Num 1) 2)) ''similarity''
       = Some (PSimilarity (calculateSimilarity [1, 0] (vectors example_vectors ! 2)))
   \<and> map_of (local_hit_properties
         \<lparr>document = example_document 3 ''a'', similarity = Num 1\<rparr>) ''index'' = None
   \<and> example_document 3 ''a'' \<in> set (documents example_documents)
   \<and> map_of (local_hit_properties
         \<lparr>document = example_document 3 ''a'', similarity = Num 1\<rparr>) ''document''
       = Some (PDocument (example_document 3 ''a''))"
proof -
  have a: "example_hit ''z'' (Num 1) 2
      \<in> set [example_hit ''x'' (Num 1) 0, example_hit ''z'' (Num 1) 2]"
    by simp
  have b: "\<lparr>document = example_document 3 ''a'', similarity = Num 1\<rparr>
      \<in> set (SimpleVectorStore_search example_documents ''a'' 2)"
    by (simp add: example_local_search)
  show ?thesis
    using search_result_fields [OF example_remote_search a b]
    by (simp add: example_local_search example_remote_search)
qed

section \<open>Chunk sizes (C4)\<close>

lemma length_trim: "length (trim s) \<le> length s"
proof -
  have "length (trim s) \<le> length (dropWhile is_space s)"
    using length_dropWhile_le [of is_space "rev (dropWhile is_space s)"]
    by (simp add: trim_def)
  also have "\<dots> \<le> length s" by (rule length_dropWhile_le)
  finally show ?thesis .
qed

lemma last_dropWhile_nonempty:
  assumes "dropWhile P xs \<noteq> []"
  shows "last (dropWhile P xs) = last xs"
proof -
  have "xs = takeWhile P xs @ dropWhile P xs" by simp
  then have "last xs = last (takeWhile P xs @ dropWhile P xs)" by simp
  also have "\<dots> = last (dropWhile P xs)" using assms by (rule last_appendR)
  finally show ?thesis by simp
qed

lemma trim_tight:
  assumes "trim s \<noteq> []"
  shows "\<not> is_space (hd (trim s)) \<and> \<not> is_space (last (trim s))"
proof -
  let ?t = "dropWhile is_space s"
  let ?u = "dropWhile is_space (rev ?t)"
  have u: "?u \<noteq> []" using assms by (simp add: trim_def)
  have t: "?t \<noteq> []"
  proof
    assume "?t = []"
    then have "?u = []" by (simp only: rev.simps(1) dropWhile.simps(1))
    then show False using u by (simp only:)
  qed
  have "\<not> is_space (hd ?u)" using u by (rule hd_dropWhile)
  then have l: "\<not> is_space (last (trim s))" using u by (simp add: trim_def last_rev)
  have "last ?u = last (rev ?t)" using u by (rule last_dropWhile_nonempty)
  then have "hd (trim s) = hd ?t" using u t by (simp add: trim_def hd_rev last_rev)
  moreover have "\<not> is_space (hd ?t)" using t by (rule hd_dropWhile)
  ultimately show ?thesis using l by simp
qed

lemma trim_id:
  assumes "s \<noteq> []" and "\<not> is_space (hd s)" and "\<not> is_space (last s)"
  shows "trim s = s"
proof -
  have a: "dropWhile is_space s = s" using assms(1,2) by (cases s) auto
  have "rev s \<noteq> []" and "\<not> is_space (hd (rev s))" using assms(1,3) by (simp_all add: hd_rev)
  then have "dropWhile is_space (rev s) = rev s" by (cases "rev s") auto
  then show ?thesis by (simp add: trim_def a)
qed

lemma chunk_loop_invariant:
  assumes single: "\<And>s. s \<in> set rest \<Longrightarrow> G (trim s)"
    and joined: "\<And>prev s. s \<in> set rest \<Longrightarrow> G prev \<Longrightarrow>
        int (length prev) + int (length s) \<le> maxChunkSize \<Longrightarrow> G (prev @ ''. '' @ trim s)"
    and nonempty: "\<And>s. s \<in> set rest \<Longrightarrow> trim s \<noteq> []"
    and chunks: "\<forall>c\<in>set chunks. G c"
    and cur: "cur = [] \<or> (G cur \<and> \<not> is_space (hd cur) \<and> \<not> is_space (last cur))"
    and result: "chunk_loop maxChunkSize rest (chunks, cur) = (chunks', cur')"
  shows "(\<forall>c\<in>set chunks'. G c)
     \<and> (cur' = [] \<or> (G cur' \<and> \<not> is_space (hd cur') \<and> \<not> is_space (last cur')))"
  using assms
proof (induction rest arbitrary: chunks cur)
  case Nil
  then show ?case by simp
next
  case (Cons sentence rest)
  let ?t = "trim sentence"
  have t: "?t \<noteq> []" using Cons.prems(3) by simp
  then have tt: "\<not> is_space (hd ?t) \<and> \<not> is_space (last ?t)" by (rule trim_tight)
  have Gt: "G ?t" using Cons.prems(1) by simp
  note IH = Cons.IH [OF Cons.prems(1) Cons.prems(2) Cons.prems(3)]
  show ?case
  proof (cases "int (length cur) + int (length sentence) > maxChunkSize \<and> length cur > 0")
    case True
    then have c: "cur \<noteq> []" by simp
    then have Gc: "G cur" and tc: "\<not> is_space (hd cur)" "\<not> is_space (last cur)"
      using Cons.prems(5) by auto
    have "trim cur = cur" using c tc by (rule trim_id)
    then have "\<forall>c\<in>set (chunks @ [trim cur]). G c" using Cons.prems(4) Gc by simp
    moreover have "?t = [] \<or> (G ?t \<and> \<not> is_space (hd ?t) \<and> \<not> is_space (last ?t))"
      using Gt tt by simp
    moreover have "chunk_loop maxChunkSize (sentence # rest) (chunks, cur)
        = chunk_loop maxChunkSize rest (chunks @ [trim cur], ?t)"
      by (subst chunk_loop.simps) (simp only: True if_True simp_thms)
    then have "chunk_loop maxChunkSize rest (chunks @ [trim cur], ?t) = (chunks', cur')"
      using Cons.prems(6) by simp
    ultimately show ?thesis by (intro IH) simp_all
  next
    case False
    let ?n = "cur @ (if cur \<noteq> [] then ''. '' else []) @ ?t"
    have n: "?n = [] \<or> (G ?n \<and> \<not> is_space (hd ?n) \<and> \<not> is_space (last ?n))"
    proof (cases "cur = []")
      case True
      then show ?thesis using Gt tt by simp
    next
      case c: False
      then have Gc: "G cur" and tc: "\<not> is_space (hd cur)"
        using Cons.prems(5) by auto
      have "int (length cur) + int (length sentence) \<le> maxChunkSize" using False c by simp
      then have "G (cur @ ''. '' @ ?t)" using Gc Cons.prems(2) [of sentence cur] by simp
      then show ?thesis using c tc tt t by simp
    qed
    have "chunk_loop maxChunkSize (sentence # rest) (chunks, cur)
        = chunk_loop maxChunkSize rest (chunks, ?n)"
      by (subst chunk_loop.simps) (simp only: False if_False simp_thms)
    then have "chunk_loop maxChunkSize rest (chunks, ?n) = (chunks', cur')"
      using Cons.prems(6) by simp
    with Cons.prems(4) n show ?thesis by (intro IH) simp_all
  qed
qed

text \<open>
  C4, as stated: every chunk has at most \<open>maxChunkSize\<close> characters. The counterexample
  is a text of one sentence longer than the maximum: the test that closes a chunk
  requires the current chunk to be non-empty, so the sentence is not severed and is a
  chunk of its own.
\<close>

theorem splitTextIntoChunks_long_sentence_counterexample:
  "splitTextIntoChunks ''Hello world'' 5 = [''Hello world'']
   \<and> int (length ''Hello world'') > 5"
  by (simp add: splitTextIntoChunks_def sentences_of_def split_terminators.simps trim_def
        is_space_def is_terminator_def)

lemma chunk_shape:
  assumes "c \<in> set (splitTextIntoChunks text maxChunkSize)"
  shows "(\<exists>s. s \<in> set (sentences_of text) \<and> c = trim s)
     \<or> (\<exists>prev s. s \<in> set (sentences_of text) \<and> c = prev @ ''. '' @ trim s
            \<and> int (length prev) + int (length s) \<le> maxChunkSize)"
proof -
  let ?S = "set (sentences_of text)"
  let ?G = "\<lambda>c. (\<exists>s. s \<in> ?S \<and> c = trim s)
     \<or> (\<exists>prev s. s \<in> ?S \<and> c = prev @ ''. '' @ trim s
            \<and> int (length prev) + int (length s) \<le> maxChunkSize)"
  obtain chunks cur where loop:
    "chunk_loop maxChunkSize (sentences_of text) ([], []) = (chunks, cur)"
    by (cases "chunk_loop maxChunkSize (sentences_of text) ([], [])") auto
  have inv: "(\<forall>c\<in>set chunks. ?G c)
     \<and> (cur = [] \<or> (?G cur \<and> \<not> is_space (hd cur) \<and> \<not> is_space (last cur)))"
  proof (rule chunk_loop_invariant [where G = ?G, OF _ _ _ _ _ loop])
    show "?G (trim s)" if "s \<in> ?S" for s using that by blast
    show "?G (prev @ ''. '' @ trim s)"
      if "s \<in> ?S" and "?G prev" and "int (length prev) + int (length s) \<le> maxChunkSize"
      for prev s
      using that(1,3) by blast
    show "trim s \<noteq> []" if "s \<in> ?S" for s
      using that by (simp add: sentences_of_def)
    show "\<forall>c\<in>set []. ?G c" by simp
    show "[] = [] \<or> (?G [] \<and> \<not> is_space (hd []) \<and> \<not> is_space (last []))" by simp
  qed
  have "?G (trim cur)" if "trim cur \<noteq> []"
  proof -
    have "cur \<noteq> []" using that by (auto simp: trim_def)
    then have "?G cur" and "trim cur = cur" using inv by (auto intro: trim_id)
    then show ?thesis by simp
  qed
  then have "\<forall>c\<in>set (splitTextIntoChunks text maxChunkSize). ?G c"
    using inv by (auto simp: splitTextIntoChunks_def loop)
  then show ?thesis using assms by blast
qed

text \<open>
  The cut at the terminators. The text is the first piece, followed by a run of
  terminators and a piece for every further piece; the runs are not empty, the pieces
  hold no terminator, and no piece between two runs is empty, so the runs are maximal.
\<close>

lemma split_terminators_Nil:
  assumes "dropWhile (\<lambda>c. \<not> is_terminator c) s = []"
  shows "split_terminators s = [s]"
  by (subst split_terminators.simps) (simp only: assms list.case)

lemma split_terminators_Cons:
  assumes "dropWhile (\<lambda>c. \<not> is_terminator c) s = r # rs"
  shows "split_terminators s
     = takeWhile (\<lambda>c. \<not> is_terminator c) s # split_terminators (dropWhile is_terminator rs)"
  by (subst split_terminators.simps) (simp only: assms list.case)

lemma hd_split_terminators:
  "hd (split_terminators s) = takeWhile (\<lambda>c. \<not> is_terminator c) s"
proof (cases "dropWhile (\<lambda>c. \<not> is_terminator c) s")
  case Nil
  have "takeWhile (\<lambda>c. \<not> is_terminator c) s @ dropWhile (\<lambda>c. \<not> is_terminator c) s = s"
    by (rule takeWhile_dropWhile_id)
  then have t: "takeWhile (\<lambda>c. \<not> is_terminator c) s = s"
    by (simp only: Nil append_Nil2)
  show ?thesis unfolding split_terminators_Nil [OF Nil] t by simp
next
  case (Cons r rs)
  then show ?thesis by (simp add: split_terminators_Cons [OF Cons])
qed

lemma split_terminators_single:
  assumes "length (split_terminators s) = 1"
  shows "dropWhile (\<lambda>c. \<not> is_terminator c) s = []"
proof (cases "dropWhile (\<lambda>c. \<not> is_terminator c) s")
  case Nil
  then show ?thesis .
next
  case (Cons r rs)
  have "split_terminators (dropWhile is_terminator rs) \<noteq> []"
    by (subst split_terminators.simps) (simp split: list.splits)
  then have "length (split_terminators s) \<noteq> 1"
    by (simp add: split_terminators_Cons [OF Cons])
  then show ?thesis using assms by simp
qed

lemma split_terminators_spec:
  "\<exists>runs. length (split_terminators s) = Suc (length runs)
     \<and> list_all (\<lambda>r. r \<noteq> [] \<and> list_all is_terminator r) runs
     \<and> s = hd (split_terminators s)
           @ concat (map2 (@) runs (tl (split_terminators s)))
     \<and> list_all (\<lambda>p. p \<noteq> []) (butlast (tl (split_terminators s)))"
proof (induction s rule: split_terminators.induct)
  case (1 s)
  let ?N = "\<lambda>c. \<not> is_terminator c"
  show ?case
  proof (cases "dropWhile ?N s")
    case Nil
    show ?thesis
      by (rule exI [of _ "[]"]) (simp add: split_terminators_Nil [OF Nil])
  next
    case (Cons r rs)
    let ?rest = "dropWhile is_terminator rs"
    let ?run = "r # takeWhile is_terminator rs"
    let ?ps = "split_terminators ?rest"
    have eq: "split_terminators s = takeWhile ?N s # ?ps"
      by (rule split_terminators_Cons [OF Cons])
    have r: "is_terminator r" using hd_dropWhile [of ?N s] Cons by simp
    have run: "list_all is_terminator ?run"
    proof -
      have "\<And>c. c \<in> set (takeWhile is_terminator rs) \<Longrightarrow> is_terminator c"
        by (blast dest: set_takeWhileD)
      then show ?thesis using r by (simp add: list_all_iff)
    qed
    have s: "s = takeWhile ?N s @ ?run @ ?rest"
    proof -
      have "s = takeWhile ?N s @ dropWhile ?N s" by simp
      also have "dropWhile ?N s = r # (takeWhile is_terminator rs @ ?rest)"
        unfolding Cons by simp
      finally show ?thesis by simp
    qed
    obtain runs where len: "length ?ps = Suc (length runs)"
      and runs: "list_all (\<lambda>r. r \<noteq> [] \<and> list_all is_terminator r) runs"
      and rest: "?rest = hd ?ps @ concat (map2 (@) runs (tl ?ps))"
      and inner: "list_all (\<lambda>p. p \<noteq> []) (butlast (tl ?ps))"
      using "1.IH" [OF Cons] by blast
    obtain p ps where ps: "?ps = p # ps" using len by (cases ?ps) auto
    have inner': "list_all (\<lambda>p. p \<noteq> []) (butlast ?ps)"
    proof (cases "ps = []")
      case True
      then show ?thesis using ps by simp
    next
      case False
      then have "length ?ps \<noteq> 1" using ps by simp
      have d: "dropWhile ?N ?rest \<noteq> []"
      proof
        assume "dropWhile ?N ?rest = []"
        then have "?ps = [?rest]" by (rule split_terminators_Nil)
        then show False using \<open>length ?ps \<noteq> 1\<close> by simp
      qed
      have "?rest \<noteq> []"
      proof
        assume "?rest = []"
        then have "dropWhile ?N ?rest = []" by (simp only: dropWhile.simps)
        then show False using d by (simp only:)
      qed
      have "\<not> is_terminator (hd ?rest)"
        using \<open>?rest \<noteq> []\<close> by (rule hd_dropWhile)
      then have "takeWhile ?N ?rest \<noteq> []"
        using \<open>?rest \<noteq> []\<close> by (cases ?rest) simp_all
      then have "p \<noteq> []" using hd_split_terminators [of ?rest] ps by simp
      then show ?thesis using inner ps False by simp
    qed
    have "s = hd (split_terminators s)
           @ concat (map2 (@) (?run # runs) (tl (split_terminators s)))"
    proof -
      have "concat (map2 (@) (?run # runs) ?ps) = ?run @ ?rest"
        using rest ps by simp
      then show ?thesis using s by (simp add: eq)
    qed
    moreover have "length (split_terminators s) = Suc (length (?run # runs))"
      using len by (simp add: eq)
    moreover have "list_all (\<lambda>r. r \<noteq> [] \<and> list_all is_terminator r) (?run # runs)"
      using run runs by simp
    moreover have "list_all (\<lambda>p. p \<noteq> []) (butlast (tl (split_terminators s)))"
      using inner' by (simp add: eq)
    ultimately show ?thesis by (intro exI [of _ "?run # runs"]) (simp only: simp_thms)
  qed
qed

text \<open>
  The grouping of the sentences. \<open>chunk_loop\<close> keeps the chunks and the current chunk
  as the chunks of groups of sentences, every group admitted and every closed group
  closed by the first sentence of the next one.
\<close>

lemma join_sentences_snoc:
  "g \<noteq> [] \<Longrightarrow> join_sentences (g @ [s]) = join_sentences g @ ''. '' @ trim s"
  by (induction g rule: join_sentences.induct) simp_all

lemma join_sentences_tight:
  assumes "g \<noteq> []" and "\<forall>s\<in>set g. trim s \<noteq> []"
  shows "join_sentences g \<noteq> [] \<and> \<not> is_space (hd (join_sentences g))
     \<and> \<not> is_space (last (join_sentences g))"
  using assms
proof (induction g rule: join_sentences.induct)
  case 1
  then show ?case by simp
next
  case (2 s)
  then show ?case using trim_tight [of s] by simp
next
  case (3 s t rest)
  have "trim s \<noteq> []" using "3.prems" by simp
  then have "\<not> is_space (hd (trim s))" using trim_tight [of s] by simp
  moreover have "join_sentences (t # rest) \<noteq> []
      \<and> \<not> is_space (last (join_sentences (t # rest)))"
    using "3.IH" "3.prems" by simp
  ultimately show ?case using \<open>trim s \<noteq> []\<close> by simp
qed

lemma trim_join_sentences:
  assumes "g \<noteq> []" and "\<forall>s\<in>set g. trim s \<noteq> []"
  shows "trim (join_sentences g) = join_sentences g"
  using join_sentences_tight [OF assms] by (intro trim_id) simp_all

lemma admitted_Nil: "admitted m []"
  by (simp add: admitted_def)

lemma admitted_single: "admitted m [s]"
  by (simp add: admitted_def)

lemma admitted_snoc:
  assumes "g \<noteq> []"
  shows "admitted m (g @ [s])
     = (admitted m g \<and> int (length (join_sentences g)) + int (length s) \<le> m)"
proof -
  have len: "1 \<le> length g" using assms by (cases g) auto
  have upt: "[1..<length (g @ [s])] = [1..<length g] @ [length g]"
    using len by simp
  have "list_all (\<lambda>n. int (length (join_sentences (take n (g @ [s]))))
            + int (length ((g @ [s]) ! n)) \<le> m) [1..<length g]
      = list_all (\<lambda>n. int (length (join_sentences (take n g))) + int (length (g ! n)) \<le> m)
          [1..<length g]"
    by (rule list.pred_cong [OF refl]) (simp add: nth_append)
  then show ?thesis
    unfolding admitted_def upt by simp
qed

lemma successively_closed_by_extend:
  assumes "successively (closed_by m) (gs @ [g])" and "g \<noteq> []"
  shows "successively (closed_by m) (gs @ [g @ [s]])"
proof -
  have "closed_by m x (g @ [s]) = closed_by m x g" for x
    using assms(2) by (simp add: closed_by_def)
  then show ?thesis using assms(1) by (simp add: successively_append_iff)
qed

lemma successively_closed_by_close:
  assumes "successively (closed_by m) (gs @ [g])"
    and "m < int (length (join_sentences g)) + int (length s)"
  shows "successively (closed_by m) ((gs @ [g]) @ [[s]])"
  using assms by (simp add: successively_append_iff closed_by_def)

lemma chunk_loop_groups:
  assumes "\<forall>s\<in>set rest. trim s \<noteq> []"
    and "\<forall>s\<in>set (concat gs @ g). trim s \<noteq> []"
    and "list_all (\<lambda>g. g \<noteq> []) gs"
    and "g = [] \<longrightarrow> gs = []"
    and "list_all (admitted m) gs" and "admitted m g"
    and "successively (closed_by m) (gs @ [g])"
  shows "\<exists>gs' g'. chunk_loop m rest (map join_sentences gs, join_sentences g)
          = (map join_sentences gs', join_sentences g')
       \<and> concat gs' @ g' = concat gs @ g @ rest
       \<and> list_all (\<lambda>g. g \<noteq> []) gs' \<and> (g' = [] \<longrightarrow> gs' = [])
       \<and> list_all (admitted m) gs' \<and> admitted m g'
       \<and> successively (closed_by m) (gs' @ [g'])"
  using assms
proof (induction rest arbitrary: gs g)
  case Nil
  show ?case
    by (rule exI [of _ gs], rule exI [of _ g]) (use Nil in simp)
next
  case (Cons s rest)
  let ?cur = "join_sentences g"
  have ts: "trim s \<noteq> []" using Cons.prems(1) by simp
  have rest: "\<forall>s\<in>set rest. trim s \<noteq> []" using Cons.prems(1) by simp
  have gT: "\<forall>s\<in>set g. trim s \<noteq> []" using Cons.prems(2) by simp
  show ?case
  proof (cases "int (length ?cur) + int (length s) > m \<and> length ?cur > 0")
    case True
    then have g: "g \<noteq> []" by auto
    have "chunk_loop m (s # rest) (map join_sentences gs, ?cur)
        = chunk_loop m rest (map join_sentences gs @ [trim ?cur], trim s)"
      by (subst chunk_loop.simps) (simp only: True if_True simp_thms)
    then have step: "chunk_loop m (s # rest) (map join_sentences gs, ?cur)
        = chunk_loop m rest (map join_sentences (gs @ [g]), join_sentences [s])"
      by (simp add: trim_join_sentences [OF g gT])
    have "\<exists>gs' g'. chunk_loop m rest (map join_sentences (gs @ [g]), join_sentences [s])
          = (map join_sentences gs', join_sentences g')
       \<and> concat gs' @ g' = concat (gs @ [g]) @ [s] @ rest
       \<and> list_all (\<lambda>g. g \<noteq> []) gs' \<and> (g' = [] \<longrightarrow> gs' = [])
       \<and> list_all (admitted m) gs' \<and> admitted m g'
       \<and> successively (closed_by m) (gs' @ [g'])"
    proof (rule Cons.IH)
      show "\<forall>s\<in>set rest. trim s \<noteq> []" by (rule rest)
      show "\<forall>t\<in>set (concat (gs @ [g]) @ [s]). trim t \<noteq> []"
        using Cons.prems(2) ts by auto
      show "list_all (\<lambda>g. g \<noteq> []) (gs @ [g])" using Cons.prems(3) g by simp
      show "[s] = [] \<longrightarrow> gs @ [g] = []" by simp
      show "list_all (admitted m) (gs @ [g])" using Cons.prems(5,6) by simp
      show "admitted m [s]" by (rule admitted_single)
      show "successively (closed_by m) ((gs @ [g]) @ [[s]])"
        using Cons.prems(7) True by (intro successively_closed_by_close) simp_all
    qed
    then show ?thesis
      unfolding step
      by (simp only: concat_append concat.simps append_assoc append_Nil2 append_Cons
            append_Nil)
  next
    case False
    have step: "chunk_loop m (s # rest) (map join_sentences gs, ?cur)
        = chunk_loop m rest (map join_sentences gs, join_sentences (g @ [s]))"
    proof -
      have a: "chunk_loop m (s # rest) (map join_sentences gs, ?cur)
          = chunk_loop m rest
              (map join_sentences gs, ?cur @ (if ?cur \<noteq> [] then ''. '' else []) @ trim s)"
        by (subst chunk_loop.simps) (simp only: False if_False simp_thms)
      have "?cur @ (if ?cur \<noteq> [] then ''. '' else []) @ trim s = join_sentences (g @ [s])"
      proof (cases "g = []")
        case True
        then show ?thesis by simp
      next
        case g: False
        then have "?cur \<noteq> []" using join_sentences_tight [OF g gT] by simp
        then show ?thesis using g by (simp add: join_sentences_snoc)
      qed
      then show ?thesis using a by simp
    qed
    have "\<exists>gs' g'. chunk_loop m rest (map join_sentences gs, join_sentences (g @ [s]))
          = (map join_sentences gs', join_sentences g')
       \<and> concat gs' @ g' = concat gs @ (g @ [s]) @ rest
       \<and> list_all (\<lambda>g. g \<noteq> []) gs' \<and> (g' = [] \<longrightarrow> gs' = [])
       \<and> list_all (admitted m) gs' \<and> admitted m g'
       \<and> successively (closed_by m) (gs' @ [g'])"
    proof (rule Cons.IH)
      show "\<forall>s\<in>set rest. trim s \<noteq> []" by (rule rest)
      show "\<forall>t\<in>set (concat gs @ g @ [s]). trim t \<noteq> []"
        using Cons.prems(2) ts by auto
      show "list_all (\<lambda>g. g \<noteq> []) gs" by (rule Cons.prems(3))
      show "g @ [s] = [] \<longrightarrow> gs = []" by simp
      show "list_all (admitted m) gs" by (rule Cons.prems(5))
      show "admitted m (g @ [s])"
      proof (cases "g = []")
        case True
        then show ?thesis by (simp add: admitted_single)
      next
        case g: False
        then have "?cur \<noteq> []" using join_sentences_tight [OF g gT] by simp
        then have "int (length ?cur) + int (length s) \<le> m" using False by simp
        then show ?thesis using Cons.prems(6) by (simp add: admitted_snoc [OF g])
      qed
      show "successively (closed_by m) (gs @ [g @ [s]])"
      proof (cases "g = []")
        case True
        then show ?thesis using Cons.prems(4) by simp
      next
        case False
        then show ?thesis using Cons.prems(7) by (intro successively_closed_by_extend)
      qed
    qed
    then show ?thesis unfolding step by (simp only: append_assoc append_Cons append_Nil)
  qed
qed

lemma split_terminators_pieces:
  "\<forall>p\<in>set (split_terminators s). \<forall>c\<in>set p. \<not> is_terminator c"
proof (induction s rule: split_terminators.induct)
  case (1 s)
  let ?T = "takeWhile (\<lambda>c. \<not> is_terminator c) s"
  show ?case
  proof (cases "dropWhile (\<lambda>c. \<not> is_terminator c) s")
    case Nil
    then have a: "\<And>c. c \<in> set s \<Longrightarrow> \<not> is_terminator c"
      by (simp add: dropWhile_eq_Nil_conv)
    have b: "split_terminators s = [s]"
      by (subst split_terminators.simps) (simp only: Nil list.case)
    show ?thesis
      unfolding b
    proof (intro ballI)
      fix p c
      assume "p \<in> set [s]" and "c \<in> set p"
      then have "c \<in> set s" by simp
      then show "\<not> is_terminator c" by (rule a)
    qed
  next
    case (Cons r rs)
    let ?R = "split_terminators (dropWhile is_terminator rs)"
    have eq: "split_terminators s = ?T # ?R"
      by (subst split_terminators.simps) (simp only: Cons list.case)
    have t: "\<And>c. c \<in> set ?T \<Longrightarrow> \<not> is_terminator c"
      by (blast dest: set_takeWhileD)
    have ih: "\<And>p c. p \<in> set ?R \<Longrightarrow> c \<in> set p \<Longrightarrow> \<not> is_terminator c"
      using "1.IH" [OF Cons] by blast
    show ?thesis
      unfolding eq
    proof (intro ballI)
      fix p c
      assume "p \<in> set (?T # ?R)" and c: "c \<in> set p"
      then have "p = ?T \<or> p \<in> set ?R" by (simp only: set_simps insert_iff)
      then show "\<not> is_terminator c" using t ih c by blast
    qed
  qed
qed

lemma filter_takeWhile_same: "filter P (takeWhile P xs) = takeWhile P xs"
  by (induction xs) simp_all

lemma filter_dropWhile_not: "filter (\<lambda>c. \<not> P c) (dropWhile P xs) = filter (\<lambda>c. \<not> P c) xs"
  by (induction xs) auto

lemma concat_split_terminators:
  "concat (split_terminators s) = filter (\<lambda>c. \<not> is_terminator c) s"
proof (induction s rule: split_terminators.induct)
  case (1 s)
  let ?P = "\<lambda>c. \<not> is_terminator c"
  show ?case
  proof (cases "dropWhile ?P s")
    case Nil
    then have "takeWhile ?P s = s" by (simp add: takeWhile_eq_all_conv dropWhile_eq_Nil_conv)
    then have "filter ?P s = s" using filter_takeWhile_same [of ?P s] by (simp only:)
    moreover have "split_terminators s = [s]"
      by (subst split_terminators.simps) (simp only: Nil list.case)
    ultimately show ?thesis by simp
  next
    case (Cons r rs)
    have eq: "split_terminators s
        = takeWhile ?P s # split_terminators (dropWhile is_terminator rs)"
      by (subst split_terminators.simps) (simp only: Cons list.case)
    have r: "is_terminator r" using hd_dropWhile [of ?P s] Cons by simp
    have "filter ?P s = filter ?P (takeWhile ?P s @ dropWhile ?P s)" by simp
    also have "\<dots> = takeWhile ?P s @ filter ?P (r # rs)"
      unfolding filter_append Cons filter_takeWhile_same ..
    also have "\<dots> = takeWhile ?P s @ filter ?P (dropWhile is_terminator rs)"
      using r by (simp add: filter_dropWhile_not)
    finally show ?thesis using "1.IH" [OF Cons] by (simp add: eq)
  qed
qed

lemma splitTextIntoChunks_groups:
  "\<exists>groups. concat groups = sentences_of text
     \<and> list_all (\<lambda>g. g \<noteq> []) groups
     \<and> splitTextIntoChunks text maxChunkSize = map join_sentences groups
     \<and> list_all (admitted maxChunkSize) groups
     \<and> successively (closed_by maxChunkSize) groups"
proof -
  let ?S = "sentences_of text"
  have S: "\<forall>s\<in>set ?S. trim s \<noteq> []" by (simp add: sentences_of_def)
  obtain gs g where loop: "chunk_loop maxChunkSize ?S (map join_sentences [], join_sentences [])
        = (map join_sentences gs, join_sentences g)"
    and cat: "concat gs @ g = concat [] @ [] @ ?S"
    and ne: "list_all (\<lambda>g. g \<noteq> []) gs" and empty: "g = [] \<longrightarrow> gs = []"
    and adm: "list_all (admitted maxChunkSize) gs" "admitted maxChunkSize g"
    and succ: "successively (closed_by maxChunkSize) (gs @ [g])"
    using chunk_loop_groups [of ?S "[]" "[]" maxChunkSize] S
    by (auto simp: admitted_Nil)
  have loop': "chunk_loop maxChunkSize ?S ([], []) = (map join_sentences gs, join_sentences g)"
    using loop by simp
  have gT: "\<forall>s\<in>set g. trim s \<noteq> []"
    using cat S by (metis Un_iff append_Nil concat.simps(1) set_append)
  show ?thesis
  proof (cases "g = []")
    case True
    then have "gs = []" using empty by simp
    then have "splitTextIntoChunks text maxChunkSize = map join_sentences []"
      using True by (simp add: splitTextIntoChunks_def loop' trim_def)
    moreover have "concat [] = ?S" using cat True \<open>gs = []\<close> by simp
    ultimately show ?thesis
      by (intro exI [of _ "[]"]) simp
  next
    case False
    have t: "trim (join_sentences g) = join_sentences g"
      using False gT by (rule trim_join_sentences)
    have "join_sentences g \<noteq> []" using join_sentences_tight [OF False gT] by simp
    then have "splitTextIntoChunks text maxChunkSize = map join_sentences (gs @ [g])"
      by (simp add: splitTextIntoChunks_def loop' t)
    moreover have "concat (gs @ [g]) = ?S" using cat by simp
    moreover have "list_all (\<lambda>g. g \<noteq> []) (gs @ [g])" using ne False by simp
    moreover have "list_all (admitted maxChunkSize) (gs @ [g])" using adm by simp
    ultimately show ?thesis using succ
      by (intro exI [of _ "gs @ [g]"]) simp
  qed
qed

lemma splitTextIntoChunks_groups_example:
  "sentences_of ''One two. Three! Four five six? Seven''
     = concat [[''One two'', '' Three''], ['' Four five six''], ['' Seven'']]
   \<and> splitTextIntoChunks ''One two. Three! Four five six? Seven'' 16
     = map join_sentences [[''One two'', '' Three''], ['' Four five six''], ['' Seven'']]
   \<and> list_all (admitted 16) [[''One two'', '' Three''], ['' Four five six''], ['' Seven'']]
   \<and> successively (closed_by 16) [[''One two'', '' Three''], ['' Four five six''], ['' Seven'']]"
  by (simp add: splitTextIntoChunks_def sentences_of_def split_terminators.simps trim_def
        is_space_def is_terminator_def admitted_def closed_by_def upt_rec)

text \<open>
  C4, amended. The text is cut at every maximal run of the characters \<open>.\<close>, \<open>!\<close>
  and \<open>?\<close>, the pieces that are empty after trimming are dropped, and the remaining
  sentences are accumulated greedily in their order: the chunks are the chunks of
  consecutive non-empty groups of the sentences, in which every sentence of a group but
  the first was added because the length of the chunk before it plus the length of the
  sentence did not exceed the maximum, and every group but the last was closed because
  the first sentence of the next group did exceed it. A chunk is the sentences of its
  group, trimmed and joined by \<open>". "\<close>. The first sentence of a group is taken whatever
  its length.
\<close>

theorem splitTextIntoChunks_greedy:
  "(\<exists>runs. length (split_terminators text) = Suc (length runs)
       \<and> list_all (\<lambda>r. r \<noteq> [] \<and> list_all is_terminator r) runs
       \<and> text = hd (split_terminators text)
                  @ concat (map2 (@) runs (tl (split_terminators text)))
       \<and> list_all (\<lambda>p. p \<noteq> []) (butlast (tl (split_terminators text))))
   \<and> list_all (list_all (\<lambda>c. \<not> is_terminator c)) (split_terminators text)
   \<and> sentences_of text = filter (\<lambda>s. trim s \<noteq> []) (split_terminators text)
   \<and> (\<exists>groups. concat groups = sentences_of text
         \<and> list_all (\<lambda>g. g \<noteq> []) groups
         \<and> splitTextIntoChunks text maxChunkSize = map join_sentences groups
         \<and> list_all (admitted maxChunkSize) groups
         \<and> successively (closed_by maxChunkSize) groups)"
proof (intro conjI)
  show "\<exists>runs. length (split_terminators text) = Suc (length runs)
       \<and> list_all (\<lambda>r. r \<noteq> [] \<and> list_all is_terminator r) runs
       \<and> text = hd (split_terminators text)
                  @ concat (map2 (@) runs (tl (split_terminators text)))
       \<and> list_all (\<lambda>p. p \<noteq> []) (butlast (tl (split_terminators text)))"
    by (rule split_terminators_spec)
  show "list_all (list_all (\<lambda>c. \<not> is_terminator c)) (split_terminators text)"
    unfolding list_all_iff by (rule split_terminators_pieces)
  show "sentences_of text = filter (\<lambda>s. trim s \<noteq> []) (split_terminators text)"
    by (simp add: sentences_of_def)
  show "\<exists>groups. concat groups = sentences_of text
         \<and> list_all (\<lambda>g. g \<noteq> []) groups
         \<and> splitTextIntoChunks text maxChunkSize = map join_sentences groups
         \<and> list_all (admitted maxChunkSize) groups
         \<and> successively (closed_by maxChunkSize) groups"
    by (rule splitTextIntoChunks_groups)
qed

text \<open>
  An example: four sentences in three chunks. \<open>Three\<close> is added to \<open>One two\<close>
  (\<open>7 + 6 \<le> 16\<close>); \<open>Four five six\<close> closes that chunk (\<open>14 + 14 > 16\<close>), and \<open>Seven\<close>
  closes the next (\<open>13 + 6 > 16\<close>).
\<close>

lemma splitTextIntoChunks_example:
  "splitTextIntoChunks ''One two. Three! Four five six? Seven'' 16
     = [''One two. Three'', ''Four five six'', ''Seven'']
   \<and> sentences_of ''One two. Three! Four five six? Seven''
     = [''One two'', '' Three'', '' Four five six'', '' Seven'']"
  by (simp add: splitTextIntoChunks_def sentences_of_def split_terminators.simps trim_def
        is_space_def is_terminator_def)

text \<open>
  The separator is not counted by the test, so a chunk of several sentences can exceed
  the maximum by the two characters of its last separator, and by no more.
\<close>

lemma splitTextIntoChunks_separator_example:
  "splitTextIntoChunks ''aaaaa.bbbbb'' 10 = [''aaaaa. bbbbb'']"
  by (simp add: splitTextIntoChunks_def sentences_of_def split_terminators.simps trim_def
        is_space_def is_terminator_def)

lemma splitTextIntoChunks_bound:
  assumes "c \<in> set (splitTextIntoChunks text maxChunkSize)"
  shows "(\<exists>s. s \<in> set (sentences_of text) \<and> c = trim s)
     \<or> int (length c) \<le> maxChunkSize + 2"
proof -
  have "int (length (prev @ ''. '' @ trim s)) \<le> maxChunkSize + 2"
    if "int (length prev) + int (length s) \<le> maxChunkSize" for prev s
    using that length_trim [of s] by simp
  then show ?thesis using chunk_shape [OF assms] by blast
qed

section \<open>Vectors of different dimension (C5)\<close>




section \<open>Ranking order (C6)\<close>

text \<open>
  The ranking order, for similarities that are all numbers. Under both strategies the
  results are then non-increasing in similarity, and results of equal similarity keep
  the insertion order of their documents. For the local store, whose results carry no
  position, the results of each similarity value are an initial segment of the stored
  documents of that similarity in insertion order; for the remote store, \<open>index\<close>
  increases strictly among results of equal similarity. The similarities are all
  numbers for the local store whenever the query does not contain the token
  \<open>constructor\<close> and the documents were added with \<open>addDocument\<close>
  (\<open>local_scores_numbers\<close>), and for the remote store, in exact arithmetic, whenever
  no stored vector is shorter than the query vector (\<open>remote_scores_numbers\<close>).
\<close>

lemma ranking_of_numbers:
  fixes s :: simple_store and vs :: vector_store
  assumes "\<forall>h\<in>set (local_scores s query). is_finite_num (similarity h)"
    and "\<forall>h\<in>set (remote_scores vs queryEmbedding). is_finite_num (hit_similarity h)"
    and "generateEmbedding query = Inr queryEmbedding"
  shows "sorted_wrt (\<lambda>a b. num_val (similarity b) \<le> num_val (similarity a))
           (SimpleVectorStore_search s query k)
     \<and> (\<forall>v. prefix (filter (\<lambda>h. similarity h = v) (SimpleVectorStore_search s query k))
                    (filter (\<lambda>h. similarity h = v) (local_scores s query)))
     \<and> (\<exists>results. VectorStore_search generateEmbedding vs query k = Inr results
          \<and> sorted_wrt (\<lambda>a b. num_val (hit_similarity b) \<le> num_val (hit_similarity a)) results
          \<and> (\<forall>i j. i < j \<and> j < length results
                 \<and> hit_similarity (results ! i) = hit_similarity (results ! j)
               \<longrightarrow> hit_index (results ! i) < hit_index (results ! j)))"
proof (intro conjI allI)
  show "sorted_wrt (\<lambda>a b. num_val (similarity b) \<le> num_val (similarity a))
          (SimpleVectorStore_search s query k)"
    unfolding SimpleVectorStore_search_def slice0_def
    by (intro sorted_wrt_filter sorted_wrt_take js_sort_descending assms(1))
next
  fix v
  let ?Y = "take k (js_sort similarity (local_scores s query))"
  have "filter (\<lambda>h. similarity h = v) (filter above_threshold ?Y)
          = (if jgt v (Num (1 / 10)) then filter (\<lambda>h. similarity h = v) ?Y else [])"
  proof (cases "jgt v (Num (1 / 10))")
    case True
    have "filter (\<lambda>h. above_threshold h \<and> similarity h = v) ?Y
            = filter (\<lambda>h. similarity h = v) ?Y"
      by (rule filter_cong [OF refl]) (use True in \<open>auto simp: above_threshold_def\<close>)
    then show ?thesis using True by (simp add: conj_commute)
  next
    case False
    have "filter (\<lambda>h. above_threshold h \<and> similarity h = v) ?Y = []"
      using False by (auto simp: filter_empty_conv above_threshold_def)
    then show ?thesis using False by (simp add: conj_commute)
  qed
  moreover have "prefix (filter (\<lambda>h. similarity h = v) ?Y)
      (filter (\<lambda>h. similarity h = v) (local_scores s query))"
    by (rule top_k_ties_prefix [OF assms(1)])
  ultimately show "prefix (filter (\<lambda>h. similarity h = v) (SimpleVectorStore_search s query k))
      (filter (\<lambda>h. similarity h = v) (local_scores s query))"
    by (simp add: SimpleVectorStore_search_def slice0_def)
next
  let ?scores = "remote_scores vs queryEmbedding"
  let ?rs = "take k (js_sort hit_similarity ?scores)"
  have res: "VectorStore_search generateEmbedding vs query k = Inr ?rs"
    by (simp add: VectorStore_search_def slice0_def assms(3))
  have srt: "sorted_wrt (\<lambda>a b. num_val (hit_similarity b) \<le> num_val (hit_similarity a)) ?rs"
    by (intro sorted_wrt_take js_sort_descending assms(2))
  have idx: "sorted_wrt (\<lambda>a b. hit_index a < hit_index b) ?scores"
  proof -
    have "sorted_wrt (<) (map hit_index ?scores)"
      by (simp add: hit_index_remote_scores)
    then show ?thesis by (simp add: sorted_wrt_map)
  qed
  have ties: "hit_index (?rs ! i) < hit_index (?rs ! j)"
    if "i < j" and "j < length ?rs" and "hit_similarity (?rs ! i) = hit_similarity (?rs ! j)"
    for i j
  proof -
    let ?Q = "\<lambda>h. hit_similarity h = hit_similarity (?rs ! j)"
    have "prefix (filter ?Q ?rs) (filter ?Q ?scores)"
      by (rule top_k_ties_prefix [OF assms(2)])
    then have "sorted_wrt (\<lambda>a b. hit_index a < hit_index b) (filter ?Q ?rs)"
      by (rule prefix_sorted_wrt) (intro sorted_wrt_filter idx)
    then show ?thesis
      using that
      by (rule sorted_wrt_filter_nth
            [where R = "\<lambda>a b. hit_index a < hit_index b" and P = ?Q and xs = ?rs])
        simp_all
  qed
  show "\<exists>results. VectorStore_search generateEmbedding vs query k = Inr results
          \<and> sorted_wrt (\<lambda>a b. num_val (hit_similarity b) \<le> num_val (hit_similarity a)) results
          \<and> (\<forall>i j. i < j \<and> j < length results
                 \<and> hit_similarity (results ! i) = hit_similarity (results ! j)
               \<longrightarrow> hit_index (results ! i) < hit_index (results ! j))"
  proof (intro exI conjI allI impI)
    show "VectorStore_search generateEmbedding vs query k = Inr ?rs" by (rule res)
    show "sorted_wrt (\<lambda>a b. num_val (hit_similarity b) \<le> num_val (hit_similarity a)) ?rs"
      by (rule srt)
    fix i j
    assume "i < j \<and> j < length ?rs \<and> hit_similarity (?rs ! i) = hit_similarity (?rs ! j)"
    then show "hit_index (?rs ! i) < hit_index (?rs ! j)" using ties by blast
  qed
qed

lemma ranking_of_numbers_example:
  "list_all (\<lambda>h. is_finite_num (similarity h)) (local_scores example_documents ''a'')
   \<and> list_all (\<lambda>h. is_finite_num (hit_similarity h)) (remote_scores example_vectors [1, 0])
   \<and> example_embedder ''a'' = Inr [1, 0]
   \<and> map (\<lambda>h. (doc_metadata (document h), similarity h))
        (SimpleVectorStore_search example_documents ''a'' 3)
      = [([(''id'', MNum 1)], Num 1), ([(''id'', MNum 3)], Num 1)]
   \<and> sorted_wrt (\<lambda>a b. num_val (similarity b) \<le> num_val (similarity a))
        (SimpleVectorStore_search example_documents ''a'' 3)
   \<and> prefix (filter (\<lambda>h. similarity h = Num 1) (SimpleVectorStore_search example_documents ''a'' 3))
        (filter (\<lambda>h. similarity h = Num 1) (local_scores example_documents ''a''))
   \<and> (\<exists>results. VectorStore_search example_embedder example_vectors ''a'' 3 = Inr results
         \<and> map (\<lambda>h. (hit_index h, hit_similarity h)) results
             = [(0, Num 1), (2, Num 1), (1, Num 0)]
         \<and> sorted_wrt (\<lambda>a b. num_val (hit_similarity b) \<le> num_val (hit_similarity a)) results
         \<and> (\<forall>i j. i < j \<and> j < length results
                 \<and> hit_similarity (results ! i) = hit_similarity (results ! j)
               \<longrightarrow> hit_index (results ! i) < hit_index (results ! j)))"
proof -
  have a: "\<forall>h\<in>set (local_scores example_documents ''a''). is_finite_num (similarity h)"
    by (simp add: example_local_scores)
  have b: "\<forall>h\<in>set (remote_scores example_vectors [1, 0]). is_finite_num (hit_similarity h)"
    by (simp add: example_remote_scores)
  have c: "example_embedder ''a'' = Inr [1, 0]" by simp
  have d: "map (\<lambda>h. (doc_metadata (document h), similarity h))
        (SimpleVectorStore_search example_documents ''a'' 3)
      = [([(''id'', MNum 1)], Num 1), ([(''id'', MNum 3)], Num 1)]"
    unfolding SimpleVectorStore_search_def example_local_sorted
    unfolding example_local_scores
    by (simp add: slice0_def above_threshold_def)
  have e: "VectorStore_search example_embedder example_vectors ''a'' 3
      = Inr (js_sort hit_similarity (remote_scores example_vectors [1, 0]))"
    by (simp add: VectorStore_search_def slice0_def length_js_sort remote_scores_def)
  have f: "map (\<lambda>h. (hit_index h, hit_similarity h))
       (js_sort hit_similarity (remote_scores example_vectors [1, 0]))
      = [(0, Num 1), (2, Num 1), (1, Num 0)]"
    unfolding example_remote_sorted unfolding example_remote_scores by simp
  show ?thesis
    using ranking_of_numbers [where s = example_documents and query = "''a''" and k = 3
      and generateEmbedding = example_embedder and queryEmbedding = "[1, 0]"
      and vs = example_vectors, OF a b c] a b c d e f
    by (simp add: list_all_iff)
qed

text \<open>
  C6. The claim: for every store and query the results are non-increasing in
  similarity. The code, on the store of the documents \<open>a a a a b b b\<close>, \<open>constructor\<close>
  and \<open>a\<close> (added in this order), the query \<open>a a a b b b b constructor\<close> and \<open>k = 3\<close>:
  the similarities are \<open>24/25\<close>, \<open>NaN\<close> and \<open>1\<close>; the sort leaves the three in place
  and the filter removes the \<open>NaN\<close>. The search returns the document of similarity
  \<open>24/25\<close> before the document of similarity \<open>1\<close>. The \<open>NaN\<close> is the similarity of the
  document \<open>constructor\<close>, whose embedding the word count corrupts.
\<close>

theorem search_not_descending:
  "map similarity (local_scores example_misordered ''a a a b b b b constructor'')
     = [Num (24 / 25), NaN, Num 1]
   \<and> map similarity
        (SimpleVectorStore_search example_misordered ''a a a b b b b constructor'' 3)
     = [Num (24 / 25), Num 1]
   \<and> jgt (similarity
            (SimpleVectorStore_search example_misordered ''a a a b b b b constructor'' 3 ! 1))
          (similarity
            (SimpleVectorStore_search example_misordered ''a a a b b b b constructor'' 3 ! 0))"
proof -
  obtain a b where
    r: "SimpleVectorStore_search example_misordered ''a a a b b b b constructor'' 3 = [a, b]"
    and s: "similarity a = Num (24 / 25)" "similarity b = Num 1"
    using example_misordered_search by (auto simp: map_eq_Cons_conv)
  have "jgt (similarity
            (SimpleVectorStore_search example_misordered ''a a a b b b b constructor'' 3 ! 1))
          (similarity
            (SimpleVectorStore_search example_misordered ''a a a b b b b constructor'' 3 ! 0))"
    unfolding r by (simp add: s)
  then show ?thesis
    using example_misordered_scores example_misordered_search by simp
qed

section \<open>The term-frequency embedder (C7)\<close>

text \<open>
  Two examples of \<open>createEmbedding\<close>: tokens that are array indices come first in the
  vocabulary, and the token \<open>__proto__\<close> is counted in the total and is no vocabulary
  entry.
\<close>

lemma createEmbedding_proto:
  "createEmbedding ''__proto__'' = \<lparr>vector = [], vocabulary = [], emb_text = ''__proto__''\<rparr>"
  by (simp add: embedding_eval)

lemma createEmbedding_example:
  "createEmbedding ''Open 24 hours, 7 days: open!''
     = \<lparr>vector = [Num (1 / 6), Num (1 / 6), Num (2 / 6), Num (1 / 6), Num (1 / 6)],
        vocabulary = [''7'', ''24'', ''open'', ''hours'', ''days''],
        emb_text = ''Open 24 hours, 7 days: open!''\<rparr>"
  by (simp add: embedding_eval char_of_eq_iff char_eq_char_of)

text \<open>
  C7 states that \<open>vector[i]\<close> is the count of \<open>vocabulary[i]\<close> divided by the number of
  tokens. For the text \<open>constructor\<close> the vocabulary is that one token and the vector's
  entry is \<open>NaN\<close>, not \<open>1 / 1\<close>: \<open>wordCount\<close> is a plain object, the first read of
  \<open>wordCount["constructor"]\<close> finds the inherited function \<open>Object\<close>, and the count
  becomes a string. For every other word of a vocabulary the entry is the count divided
  by the number of tokens, the vector is as long as the vocabulary, and both are empty
  for a text without tokens (\<open>createEmbedding_frequencies\<close>, \<open>createEmbedding_no_word\<close>).
\<close>

theorem createEmbedding_constructor:
  "createEmbedding ''constructor''
     = \<lparr>vector = [NaN], vocabulary = [''constructor''], emb_text = ''constructor''\<rparr>"
  by (simp add: embedding_eval)

section \<open>Store statistics (C8)\<close>

lemma fold_text_lengths:
  "fold (\<lambda>text sum. sum + length text) xs n = n + sum_list (map length xs)"
  by (induction xs arbitrary: n) auto

lemma getStats_nonempty:
  assumes "texts s \<noteq> []"
  shows "averageTextLength (getStats s)
           = Num (real (sum_list (map length (texts s))) / real (length (texts s)))"
  using assms by (simp add: getStats_def fold_text_lengths)

lemma getStats_counts:
  "totalVectors (getStats s) = length (vectors s) \<and> totalTexts (getStats s) = length (texts s)
   \<and> vectorDimension (getStats s) = (case vectors s of [] \<Rightarrow> 0 | v # vs \<Rightarrow> length v)"
  by (cases "vectors s") (simp_all add: getStats_def)

text \<open>
  C8 states that \<open>averageTextLength\<close> is \<open>0\<close> for the empty store. The division by the
  number of texts is not guarded (the neighbouring \<open>vectorDimension\<close> is): for the empty
  store it is \<open>0 / 0\<close>, and \<open>getStats\<close> returns \<open>NaN\<close>. The counts and the vector dimension
  are as the claim states (\<open>getStats_counts\<close>), and so is the average of a store that has
  texts (\<open>getStats_nonempty\<close>).
\<close>

theorem getStats_empty_store:
  "getStats new_VectorStore
     = \<lparr>totalVectors = 0, totalTexts = 0, averageTextLength = NaN, vectorDimension = 0\<rparr>"
  by (simp add: getStats_def new_VectorStore_def)

section \<open>Empty and whitespace-only text (C9)\<close>

lemma is_space_not_word: "is_space c \<Longrightarrow> \<not> is_word_char c"
  by (auto simp: is_space_def is_word_char_def Let_def)

lemma is_space_not_terminator: "is_space c \<Longrightarrow> \<not> is_terminator c"
  by (auto simp: is_space_def is_terminator_def)

lemma is_space_to_lower: "is_space c \<Longrightarrow> to_lower c = c"
  by (auto simp: is_space_def to_lower_def Let_def)

lemma match_words_no_word:
  assumes "\<forall>c\<in>set s. \<not> is_word_char c"
  shows "match_words s = []"
proof -
  have d: "dropWhile (\<lambda>c. \<not> is_word_char c) s = []" using assms by simp
  show ?thesis by (subst match_words.simps) (simp only: d list.case)
qed

lemma createEmbedding_no_word:
  assumes "\<forall>c\<in>set text. \<not> is_word_char (to_lower c)"
  shows "createEmbedding text = \<lparr>vector = [], vocabulary = [], emb_text = text\<rparr>"
proof -
  have "match_words (map to_lower text) = []"
    using assms by (intro match_words_no_word) simp
  then show ?thesis by (simp add: createEmbedding_def Object_keys_def)
qed

lemma trim_spaces:
  assumes "list_all is_space s"
  shows "trim s = []"
proof -
  have d: "dropWhile is_space s = []" using assms by (simp add: list_all_iff)
  show ?thesis unfolding trim_def d by simp
qed

lemma split_terminators_none:
  assumes "\<forall>c\<in>set s. \<not> is_terminator c"
  shows "split_terminators s = [s]"
proof -
  have d: "dropWhile (\<lambda>c. \<not> is_terminator c) s = []" using assms by simp
  show ?thesis by (subst split_terminators.simps) (simp only: d list.case)
qed

lemma splitTextIntoChunks_spaces:
  assumes "list_all is_space text"
  shows "splitTextIntoChunks text maxChunkSize = []"
proof -
  have "split_terminators text = [text]"
    using assms by (intro split_terminators_none) (auto simp: list_all_iff is_space_not_terminator)
  then have "sentences_of text = []"
    using assms by (simp add: sentences_of_def trim_spaces)
  then show ?thesis by (simp add: splitTextIntoChunks_def trim_def)
qed

text \<open>
  C9, as stated: adding an empty or whitespace-only text is rejected with an error and
  appends no record. The counterexample: \<open>addDocument\<close> of the empty text on the empty
  local store returns a store holding one record, whose vector and vocabulary are empty.
\<close>

theorem addDocument_empty_text_counterexample:
  "addDocument [] [] new_SimpleVectorStore
     = \<lparr>documents = [\<lparr>doc_text = [], doc_metadata = [],
                       doc_embedding = \<lparr>vector = [], vocabulary = [], emb_text = []\<rparr>\<rparr>],
        embeddings = [\<lparr>vector = [], vocabulary = [], emb_text = []\<rparr>]\<rparr>"
  by (simp add: addDocument_def new_SimpleVectorStore_def embedding_eval)

text \<open>
  C9, amended. Neither add operation rejects an empty or whitespace-only text. The local
  \<open>addDocument\<close> appends one record whose vector and vocabulary are empty. The remote
  \<open>addText\<close> splits such a text into no chunks, so it calls the embedding service for
  no chunk, appends nothing and returns without an error, whatever the embedding
  service would answer.
\<close>

theorem add_whitespace_only:
  assumes "list_all is_space text"
  shows "addDocument text md s
       = s\<lparr>documents := documents s @
              [\<lparr>doc_text = text, doc_metadata = md,
                doc_embedding = \<lparr>vector = [], vocabulary = [], emb_text = text\<rparr>\<rparr>],
            embeddings := embeddings s @ [\<lparr>vector = [], vocabulary = [], emb_text = text\<rparr>]\<rparr>
     \<and> splitTextIntoChunks text 1000 = []
     \<and> addText generateEmbedding text md vs = (None, vs)"
proof -
  have "\<forall>c\<in>set text. \<not> is_word_char (to_lower c)"
    using assms by (auto simp: list_all_iff is_space_to_lower is_space_not_word)
  then have e: "createEmbedding text = \<lparr>vector = [], vocabulary = [], emb_text = text\<rparr>"
    by (rule createEmbedding_no_word)
  have c: "splitTextIntoChunks text 1000 = []"
    using assms by (rule splitTextIntoChunks_spaces)
  have "addText generateEmbedding text md vs = (None, vs)"
    by (simp add: addText_def c addText_loop.simps)
  then show ?thesis using e c by (simp add: addDocument_def Let_def)
qed

theorem add_whitespace_only_witness:
  "list_all is_space ''  ''
   \<and> documents (addDocument ''  '' [] new_SimpleVectorStore)
       = [\<lparr>doc_text = ''  '', doc_metadata = [],
           doc_embedding = \<lparr>vector = [], vocabulary = [], emb_text = ''  ''\<rparr>\<rparr>]
   \<and> splitTextIntoChunks ''  '' 1000 = []
   \<and> addText example_embedder ''  '' [] example_vectors = (None, example_vectors)"
proof -
  have a: "list_all is_space ''  ''" by (simp add: is_space_def)
  show ?thesis
    using add_whitespace_only [OF a, of "[]" new_SimpleVectorStore example_embedder example_vectors] a
    by (simp add: new_SimpleVectorStore_def)
qed

section \<open>Similarity of local embeddings (C10)\<close>

text \<open>
  C10 states that the similarity of two embeddings of the local embedder is never \<open>NaN\<close>.
  For the document \<open>constructor\<close> and the query \<open>constructor\<close> the vocabularies share
  that one word, whose vector entries are \<open>NaN\<close> and count as \<open>0\<close>; both norms are \<open>0\<close>
  and the unguarded division is \<open>0 / 0\<close>. This is the only case: the similarity of two
  embeddings is \<open>0\<close> when they share no word and a number when they share a word other
  than \<open>constructor\<close> (\<open>cosineSimilarity_embeddings\<close>).
\<close>

theorem similarity_constructor_NaN:
  "map similarity
     (local_scores (addDocument ''constructor'' [] new_SimpleVectorStore) ''constructor'')
   = [NaN]"
  by (simp add: local_scores_def addDocument_def new_SimpleVectorStore_def
        embedding_eval cosine_eval)

end
